theory Spec2Isabelle
  imports
    Main
    "HOL-Library.Char_ord"
    "HOL-Library.List_Lexorder"
    "HOL-Library.Option_ord"
    "HOL-Library.Product_Lexorder"
    "HOL-Library.Multiset"
begin

section \<open>The task manager over SQLite: data model\<close>

text \<open>
  The program keeps one table, \<^verbatim>\<open>tasks\<close>, in an SQLite file and talks to it through
  five functions (\<^verbatim>\<open>create_table\<close>, \<^verbatim>\<open>add_task\<close>, \<^verbatim>\<open>view_tasks\<close>,
  \<^verbatim>\<open>complete_task\<close>, \<^verbatim>\<open>delete_task\<close>), each of which opens a connection, runs one
  statement, commits and closes. Two further functions validate what the user types.

  A Python \<^verbatim>\<open>str\<close> is modelled as a \<open>string\<close> whose characters are code points
  below 256; Python's unbounded \<^verbatim>\<open>int\<close> and SQLite's \<^verbatim>\<open>INTEGER\<close> are \<open>int\<close>;
  a column that may hold \<^verbatim>\<open>NULL\<close> is an \<open>option\<close>.

  A row of the table declared by
  \<^verbatim>\<open>CREATE TABLE IF NOT EXISTS tasks (
      id INTEGER PRIMARY KEY AUTOINCREMENT,
      description TEXT NOT NULL,
      due_date TEXT,
      completed INTEGER DEFAULT 0)\<close>
  is a record. The column \<^verbatim>\<open>id\<close> is called \<open>rowid\<close> here (\<open>id\<close> is the identity function of HOL;
  an \<^verbatim>\<open>INTEGER PRIMARY KEY\<close> is SQLite's rowid). \<^verbatim>\<open>completed\<close> has no
  \<^verbatim>\<open>NOT NULL\<close> constraint, so the column type admits \<^verbatim>\<open>NULL\<close> and any integer.
\<close>

record task =
  rowid :: int
  description :: string
  due_date :: "string option"
  completed :: "int option"

text \<open>
  The table: its rows in insertion order, and \<open>seq\<close>, the entry that SQLite keeps for
  an \<^verbatim>\<open>AUTOINCREMENT\<close> table in \<^verbatim>\<open>sqlite_sequence\<close> (the largest rowid ever
  handed out). A database file in which the table has not been created yet is \<open>None\<close>.
\<close>

record table =
  rows :: "task list"
  seq :: int

type_synonym database = "table option"

text \<open>
  What the SQLite engine does on one call, as the environment decides it: it works, or
  \<^verbatim>\<open>sqlite3.connect\<close> raises, or compiling the statement raises, or running the
  statement (or its commit) raises. The string is the
  text of the \<^verbatim>\<open>sqlite3.Error\<close>. Exhausted disk or rowid space are faults of this kind.
\<close>

datatype engine = Healthy | Connect_Fails string | Prepare_Fails string | Statement_Fails string

datatype connection = Connection

text \<open>The value a Python call hands back to its caller.\<close>

datatype pyval = PyNone | PyInt int | PyStr string

text \<open>The Python exceptions that leave a function of the program uncaught.\<close>

datatype py_error = EOFError | OverflowError

text \<open>
  The result of one storage call: the committed content of the file afterwards, the lines
  written by \<^verbatim>\<open>print\<close>, the value returned to the caller, and the exception, if any,
  with which the call ended instead of returning (\<open>returned\<close> then stands for nothing).
\<close>

record outcome =
  store :: database
  printed :: "string list"
  returned :: pyval
  raised :: "py_error option"

section \<open>Formatting\<close>

text \<open>\<^verbatim>\<open>str(n)\<close> for an integer, as an f-string renders it.\<close>

fun digits :: "nat \<Rightarrow> string" where
  "digits n =
     (if n < 10 then [''0123456789'' ! n]
      else digits (n div 10) @ [''0123456789'' ! (n mod 10)])"

definition str_int :: "int \<Rightarrow> string" where
  "str_int i = (if i < 0 then CHR ''-'' # digits (nat (- i)) else digits (nat i))"

definition quote :: "string \<Rightarrow> string" where
  "quote s = [CHR 0x27] @ s @ [CHR 0x27]"

section \<open>The SQL statements\<close>

text \<open>
  \<^verbatim>\<open>INSERT INTO tasks (description, due_date) VALUES (?, ?)\<close>.
  With \<^verbatim>\<open>AUTOINCREMENT\<close> the new rowid is one more than the largest rowid the table
  has ever held; \<^verbatim>\<open>completed\<close> is not supplied and takes its \<^verbatim>\<open>DEFAULT 0\<close>.
\<close>

definition next_rowid :: "table \<Rightarrow> int" where
  "next_rowid t = max (seq t) (fold max (map rowid (rows t)) 0) + 1"

definition sql_insert :: "string \<Rightarrow> string option \<Rightarrow> table \<Rightarrow> table" where
  "sql_insert descr due t =
     \<lparr>rows = rows t @
        [\<lparr>rowid = next_rowid t, description = descr, due_date = due, completed = Some 0\<rparr>],
      seq = next_rowid t\<rparr>"

text \<open>
  \<^verbatim>\<open>UPDATE tasks SET completed = 1 WHERE id = ?\<close>, with \<^verbatim>\<open>cursor.rowcount\<close>: SQLite
  counts every row the \<^verbatim>\<open>WHERE\<close> clause selects, whether or not the stored value
  differs from the new one.
\<close>

definition sql_update :: "int \<Rightarrow> table \<Rightarrow> table \<times> nat" where
  "sql_update k t =
     (t\<lparr>rows := map (\<lambda>r. if rowid r = k then r\<lparr>completed := Some 1\<rparr> else r) (rows t)\<rparr>,
      length (filter (\<lambda>r. rowid r = k) (rows t)))"

text \<open>\<^verbatim>\<open>DELETE FROM tasks WHERE id = ?\<close>, with \<^verbatim>\<open>cursor.rowcount\<close>.\<close>

definition sql_delete :: "int \<Rightarrow> table \<Rightarrow> table \<times> nat" where
  "sql_delete k t =
     (t\<lparr>rows := filter (\<lambda>r. rowid r \<noteq> k) (rows t)\<rparr>,
      length (filter (\<lambda>r. rowid r = k) (rows t)))"

text \<open>
  The two queries of \<^verbatim>\<open>view_tasks\<close> and their \<^verbatim>\<open>fetchall()\<close>:
  \<^verbatim>\<open>SELECT ... FROM tasks ORDER BY completed ASC, due_date ASC, id ASC\<close> and
  \<^verbatim>\<open>SELECT ... FROM tasks WHERE completed = 0 ORDER BY due_date ASC, id ASC\<close>.
  SQLite sorts \<^verbatim>\<open>NULL\<close> before every value and compares \<^verbatim>\<open>TEXT\<close> byte by byte;
  these are the orders of \<open>option\<close> and of \<open>string\<close>, and the sort key is compared
  lexicographically. \<^verbatim>\<open>NULL = 0\<close> is not true, so a row whose \<^verbatim>\<open>completed\<close> is
  \<^verbatim>\<open>NULL\<close> fails the \<^verbatim>\<open>WHERE\<close> clause.
\<close>

definition sql_select :: "bool \<Rightarrow> table \<Rightarrow> task list" where
  "sql_select show_completed t =
     (if show_completed
      then sort_key (\<lambda>r. (completed r, due_date r, rowid r)) (rows t)
      else sort_key (\<lambda>r. (due_date r, rowid r))
             (filter (\<lambda>r. completed r = Some 0) (rows t)))"

text \<open>
  An SQLite \<^verbatim>\<open>INTEGER\<close> has 64 bits. Binding a Python integer outside that range to
  a \<^verbatim>\<open>?\<close> makes \<^verbatim>\<open>cursor.execute\<close> raise \<^verbatim>\<open>OverflowError\<close>, which is not an
  \<^verbatim>\<open>sqlite3.Error\<close>.
\<close>

definition sqlite_integer :: "int \<Rightarrow> bool" where
  "sqlite_integer k = (- (2 ^ 63) \<le> k \<and> k < 2 ^ 63)"

datatype failure = Sqlite3_Error string | Overflow_Error

text \<open>
  \<^verbatim>\<open>cursor.execute\<close> with the integers bound to the statement, followed by the commit if
  there is one. The statement is compiled first (the engine's fault, then SQLite's error
  for a table that does not exist), then the parameters are bound, then the statement
  runs (the engine's fault, or the statement's effect).
\<close>

definition execute :: "engine \<Rightarrow> database \<Rightarrow> int list \<Rightarrow> (table \<Rightarrow> 'a) \<Rightarrow> failure + 'a" where
  "execute eng db params stmt =
     (case eng of
        Prepare_Fails e \<Rightarrow> Inl (Sqlite3_Error e)
      | _ \<Rightarrow>
        (case db of
           None \<Rightarrow> Inl (Sqlite3_Error ''no such table: tasks'')
         | Some t \<Rightarrow>
             if \<not> list_all sqlite_integer params then Inl Overflow_Error
             else (case eng of
                     Statement_Fails e \<Rightarrow> Inl (Sqlite3_Error e)
                   | _ \<Rightarrow> Inr (stmt t))))"

section \<open>The storage functions\<close>

text \<open>
  \<^verbatim>\<open>connect_db\<close>: the connection, or a printed message and \<^verbatim>\<open>None\<close>.
\<close>

definition connect_db :: "engine \<Rightarrow> string list \<times> connection option" where
  "connect_db eng =
     (case eng of
        Connect_Fails e \<Rightarrow> ([''Database connection error: '' @ e], None)
      | _ \<Rightarrow> ([], Some Connection))"

text \<open>
  \<^verbatim>\<open>create_table\<close>: \<^verbatim>\<open>CREATE TABLE IF NOT EXISTS\<close> leaves an existing table alone.
\<close>

definition create_table :: "engine \<Rightarrow> database \<Rightarrow> outcome" where
  "create_table eng db =
     (case connect_db eng of
        (out, None) \<Rightarrow> \<lparr>store = db, printed = out, returned = PyNone, raised = None\<rparr>
      | (out, Some conn) \<Rightarrow>
          (case eng of
             Prepare_Fails e \<Rightarrow>
               \<lparr>store = db, printed = out @ [''Error creating table: '' @ e],
                returned = PyNone, raised = None\<rparr>
           | Statement_Fails e \<Rightarrow>
               \<lparr>store = db, printed = out @ [''Error creating table: '' @ e],
                returned = PyNone, raised = None\<rparr>
           | _ \<Rightarrow>
               \<lparr>store = (case db of None \<Rightarrow> Some \<lparr>rows = [], seq = 0\<rparr> | Some t \<Rightarrow> Some t),
                printed = out @ [''Database table '' @ quote ''tasks'' @ '' ensured.''],
                returned = PyNone, raised = None\<rparr>))"

text \<open>
  \<^verbatim>\<open>add_task(description, due_date=None)\<close>. The body has no \<^verbatim>\<open>return\<close> statement,
  so the call evaluates to \<^verbatim>\<open>None\<close>. Both parameters are texts (or \<^verbatim>\<open>None\<close>); no
  integer is bound.
\<close>

definition add_task :: "engine \<Rightarrow> string \<Rightarrow> string option \<Rightarrow> database \<Rightarrow> outcome" where
  "add_task eng descr due db =
     (case connect_db eng of
        (out, None) \<Rightarrow> \<lparr>store = db, printed = out, returned = PyNone, raised = None\<rparr>
      | (out, Some conn) \<Rightarrow>
          (case execute eng db [] (sql_insert descr due) of
             Inl (Sqlite3_Error e) \<Rightarrow>
               \<lparr>store = db, printed = out @ [''Error adding task: '' @ e],
                returned = PyNone, raised = None\<rparr>
           | Inl Overflow_Error \<Rightarrow>
               \<lparr>store = db, printed = out, returned = PyNone, raised = Some OverflowError\<rparr>
           | Inr t' \<Rightarrow>
               \<lparr>store = Some t',
                printed = out @ [''Task '' @ quote descr @ '' added successfully!''],
                returned = PyNone, raised = None\<rparr>))"

text \<open>
  \<^verbatim>\<open>view_tasks(show_completed=False)\<close>: one line per fetched row. A due date that is
  \<^verbatim>\<open>None\<close> or empty is falsy and prints nothing. The fetched rows are printed; the call
  itself returns \<^verbatim>\<open>None\<close>.
\<close>

definition task_line :: "task \<Rightarrow> string" where
  "task_line r =
     (let status = (if completed r = Some 1 then ''[DONE]'' else ''[TODO]'');
          due = (case due_date r of
                   None \<Rightarrow> ''''
                 | Some d \<Rightarrow> if d = '''' then '''' else ''(Due: '' @ d @ '')'')
      in str_int (rowid r) @ ''. '' @ status @ '' '' @ description r @ '' '' @ due)"

definition view_tasks :: "engine \<Rightarrow> bool \<Rightarrow> database \<Rightarrow> outcome" where
  "view_tasks eng show_completed db =
     (case connect_db eng of
        (out, None) \<Rightarrow> \<lparr>store = db, printed = out, returned = PyNone, raised = None\<rparr>
      | (out, Some conn) \<Rightarrow>
          (case execute eng db [] (sql_select show_completed) of
             Inl (Sqlite3_Error e) \<Rightarrow>
               \<lparr>store = db, printed = out @ [''Error viewing tasks: '' @ e],
                returned = PyNone, raised = None\<rparr>
           | Inl Overflow_Error \<Rightarrow>
               \<lparr>store = db, printed = out, returned = PyNone, raised = Some OverflowError\<rparr>
           | Inr tasks \<Rightarrow>
               if tasks = []
               then \<lparr>store = db, printed = out @ [''\<newline>No tasks found.''],
                     returned = PyNone, raised = None\<rparr>
               else \<lparr>store = db,
                     printed = out @ [''\<newline>--- Your Tasks ---''] @ map task_line tasks
                                 @ [''------------------''],
                     returned = PyNone, raised = None\<rparr>))"

text \<open>
  \<^verbatim>\<open>complete_task(task_id)\<close>: the update is committed only when
  \<^verbatim>\<open>cursor.rowcount > 0\<close>; otherwise closing the connection discards it. The handler
  catches \<^verbatim>\<open>sqlite3.Error\<close> only: an \<^verbatim>\<open>OverflowError\<close> closes the connection and
  leaves the function, with nothing printed and nothing committed.
\<close>

definition complete_task :: "engine \<Rightarrow> int \<Rightarrow> database \<Rightarrow> outcome" where
  "complete_task eng k db =
     (case connect_db eng of
        (out, None) \<Rightarrow> \<lparr>store = db, printed = out, returned = PyNone, raised = None\<rparr>
      | (out, Some conn) \<Rightarrow>
          (case execute eng db [k] (sql_update k) of
             Inl (Sqlite3_Error e) \<Rightarrow>
               \<lparr>store = db, printed = out @ [''Error completing task: '' @ e],
                returned = PyNone, raised = None\<rparr>
           | Inl Overflow_Error \<Rightarrow>
               \<lparr>store = db, printed = out, returned = PyNone, raised = Some OverflowError\<rparr>
           | Inr (t', rowcount) \<Rightarrow>
               if rowcount > 0
               then \<lparr>store = Some t',
                     printed = out @ [''Task '' @ str_int k @ '' marked as completed!''],
                     returned = PyNone, raised = None\<rparr>
               else \<lparr>store = db,
                     printed = out @ [''Task '' @ str_int k @ '' not found or already completed.''],
                     returned = PyNone, raised = None\<rparr>))"

text \<open>\<^verbatim>\<open>delete_task(task_id)\<close>, of the same shape.\<close>

definition delete_task :: "engine \<Rightarrow> int \<Rightarrow> database \<Rightarrow> outcome" where
  "delete_task eng k db =
     (case connect_db eng of
        (out, None) \<Rightarrow> \<lparr>store = db, printed = out, returned = PyNone, raised = None\<rparr>
      | (out, Some conn) \<Rightarrow>
          (case execute eng db [k] (sql_delete k) of
             Inl (Sqlite3_Error e) \<Rightarrow>
               \<lparr>store = db, printed = out @ [''Error deleting task: '' @ e],
                returned = PyNone, raised = None\<rparr>
           | Inl Overflow_Error \<Rightarrow>
               \<lparr>store = db, printed = out, returned = PyNone, raised = Some OverflowError\<rparr>
           | Inr (t', rowcount) \<Rightarrow>
               if rowcount > 0
               then \<lparr>store = Some t',
                     printed = out @ [''Task '' @ str_int k @ '' deleted successfully!''],
                     returned = PyNone, raised = None\<rparr>
               else \<lparr>store = db,
                     printed = out @ [''Task '' @ str_int k @ '' not found.''],
                     returned = PyNone, raised = None\<rparr>))"

section \<open>Sequences of storage calls\<close>

text \<open>
  The calls that \<^verbatim>\<open>main\<close> dispatches to, as data, each paired with what the engine does
  on that call.
\<close>

datatype command =
    Create_Table
  | Add_Task string "string option"
  | View_Tasks bool
  | Complete_Task int
  | Delete_Task int

fun run_command :: "engine \<times> command \<Rightarrow> database \<Rightarrow> outcome" where
  "run_command (eng, Create_Table) db = create_table eng db"
| "run_command (eng, Add_Task descr due) db = add_task eng descr due db"
| "run_command (eng, View_Tasks show_completed) db = view_tasks eng show_completed db"
| "run_command (eng, Complete_Task k) db = complete_task eng k db"
| "run_command (eng, Delete_Task k) db = delete_task eng k db"

fun run_commands :: "(engine \<times> command) list \<Rightarrow> database \<Rightarrow> database" where
  "run_commands [] db = db"
| "run_commands (c # cs) db = run_commands cs (store (run_command c db))"

definition all_rows :: "database \<Rightarrow> task list" where
  "all_rows db = (case db of None \<Rightarrow> [] | Some t \<Rightarrow> rows t)"

definition ids :: "database \<Rightarrow> int list" where
  "ids db = map rowid (all_rows db)"

text \<open>The ids present after a call that were not present before it.\<close>

definition fresh_ids :: "database \<Rightarrow> database \<Rightarrow> int list" where
  "fresh_ids db db' = filter (\<lambda>i. i \<notin> set (ids db)) (ids db')"

text \<open>Every id assigned in the course of a run, in the order of assignment.\<close>

fun assigned :: "(engine \<times> command) list \<Rightarrow> database \<Rightarrow> int list" where
  "assigned [] db = []"
| "assigned (c # cs) db =
     fresh_ids db (store (run_command c db)) @ assigned cs (store (run_command c db))"

section \<open>The interactive shell: input validation\<close>

text \<open>
  \<^verbatim>\<open>str.strip()\<close> removes leading and trailing whitespace; below code point 256 the
  characters for which \<^verbatim>\<open>str.isspace\<close> holds are these.
\<close>

definition isspace :: "char \<Rightarrow> bool" where
  "isspace c = (of_char c \<in> {9, 10, 11, 12, 13, 28, 29, 30, 31, 32, 133, 160 :: nat})"

definition strip :: "string \<Rightarrow> string" where
  "strip s = rev (dropWhile isspace (rev (dropWhile isspace s)))"

definition is_digit :: "char \<Rightarrow> bool" where
  "is_digit c = (CHR ''0'' \<le> c \<and> c \<le> CHR ''9'')"

definition digit_val :: "char \<Rightarrow> nat" where
  "digit_val c = of_char c - 48"

subsection \<open>\<^verbatim>\<open>datetime.strptime(date_str, '%Y-%m-%d')\<close>\<close>

text \<open>
  The library turns the format into the regular expression
  \<^verbatim>\<open>(?P<Y>\d\d\d\d)-(?P<m>1[0-2]|0[1-9]|[1-9])-(?P<d>3[0-1]|[1-2]\d|0[1-9]|[1-9]| [1-9])\<close>,
  matches it at the start of the string, raises \<^verbatim>\<open>ValueError\<close> when there is no
  match or when text remains after the match, and then builds the date, which raises
  \<^verbatim>\<open>ValueError\<close> for a year, month or day out of range. Each group below lists its
  alternatives in the order in which a backtracking matcher tries them, as pairs of the
  number read and the text left.
\<close>

definition lit :: "char \<Rightarrow> string \<Rightarrow> string list" where
  "lit c s = (case s of [] \<Rightarrow> [] | x # xs \<Rightarrow> if x = c then [xs] else [])"

definition year_group :: "string \<Rightarrow> (nat \<times> string) list" where
  "year_group s =
     (case s of
        a # b # c # d # rest \<Rightarrow>
          if is_digit a \<and> is_digit b \<and> is_digit c \<and> is_digit d
          then [(1000 * digit_val a + 100 * digit_val b + 10 * digit_val c + digit_val d, rest)]
          else []
      | _ \<Rightarrow> [])"

definition two_chars :: "(char \<Rightarrow> bool) \<Rightarrow> (char \<Rightarrow> bool) \<Rightarrow> string \<Rightarrow> (nat \<times> string) list" where
  "two_chars p q s =
     (case s of
        a # b # rest \<Rightarrow> if p a \<and> q b then [(10 * digit_val a + digit_val b, rest)] else []
      | _ \<Rightarrow> [])"

definition one_char :: "(char \<Rightarrow> bool) \<Rightarrow> string \<Rightarrow> (nat \<times> string) list" where
  "one_char p s = (case s of a # rest \<Rightarrow> if p a then [(digit_val a, rest)] else [] | _ \<Rightarrow> [])"

definition between :: "char \<Rightarrow> char \<Rightarrow> char \<Rightarrow> bool" where
  "between lo hi c = (lo \<le> c \<and> c \<le> hi)"

definition month_group :: "string \<Rightarrow> (nat \<times> string) list" where
  "month_group s =
     two_chars (between CHR ''1'' CHR ''1'') (between CHR ''0'' CHR ''2'') s
     @ two_chars (between CHR ''0'' CHR ''0'') (between CHR ''1'' CHR ''9'') s
     @ one_char (between CHR ''1'' CHR ''9'') s"

text \<open>The last alternative of the day is a space and one digit; the space counts for nothing.\<close>

definition day_group :: "string \<Rightarrow> (nat \<times> string) list" where
  "day_group s =
     two_chars (between CHR ''3'' CHR ''3'') (between CHR ''0'' CHR ''1'') s
     @ two_chars (between CHR ''1'' CHR ''2'') is_digit s
     @ two_chars (between CHR ''0'' CHR ''0'') (between CHR ''1'' CHR ''9'') s
     @ one_char (between CHR ''1'' CHR ''9'') s
     @ concat (map (one_char (between CHR ''1'' CHR ''9'')) (lit CHR '' '' s))"

definition regex_matches :: "string \<Rightarrow> ((nat \<times> nat \<times> nat) \<times> string) list" where
  "regex_matches s =
     concat (map (\<lambda>(y, s1).
       concat (map (\<lambda>s2.
         concat (map (\<lambda>(m, s3).
           concat (map (\<lambda>s4.
             map (\<lambda>(d, s5). ((y, m, d), s5)) (day_group s4))
           (lit CHR ''-'' s3)))
         (month_group s2)))
       (lit CHR ''-'' s1)))
     (year_group s))"

definition is_leap :: "nat \<Rightarrow> bool" where
  "is_leap y = (y mod 4 = 0 \<and> (y mod 100 \<noteq> 0 \<or> y mod 400 = 0))"

definition days_in_month :: "nat \<Rightarrow> nat \<Rightarrow> nat" where
  "days_in_month y m =
     (if m = 2 then (if is_leap y then 29 else 28)
      else if m = 4 \<or> m = 6 \<or> m = 9 \<or> m = 11 then 30 else 31)"

definition valid_date :: "nat \<Rightarrow> nat \<Rightarrow> nat \<Rightarrow> bool" where
  "valid_date y m d =
     (1 \<le> y \<and> y \<le> 9999 \<and> 1 \<le> m \<and> m \<le> 12 \<and> 1 \<le> d \<and> d \<le> days_in_month y m)"

text \<open>The date read, or \<open>None\<close> where the library raises \<^verbatim>\<open>ValueError\<close>.\<close>

definition strptime :: "string \<Rightarrow> (nat \<times> nat \<times> nat) option" where
  "strptime s =
     (case regex_matches s of
        [] \<Rightarrow> None
      | ((y, m, d), rest) # _ \<Rightarrow>
          if rest \<noteq> [] then None
          else if valid_date y m d then Some (y, m, d)
          else None)"

subsection \<open>\<^verbatim>\<open>int(task_id_str)\<close>\<close>

text \<open>
  A decimal literal: an optional sign, then digits, where single underscores may stand
  between digits. \<open>None\<close> is \<^verbatim>\<open>ValueError\<close>. \<^verbatim>\<open>int\<close> would itself skip surrounding
  whitespace; it is only ever applied to a stripped string, which has none.

  The interpreter limits the number of digits of a decimal literal: with the setting
  \<open>max_str_digits\<close> (\<^verbatim>\<open>sys.get_int_max_str_digits()\<close>, 4300 unless changed, 0 for no
  limit, and no limit in interpreters that lack the setting), a literal of more than 640
  and more than \<open>max_str_digits\<close> digits raises \<^verbatim>\<open>ValueError\<close>. The setting is a
  parameter here.
\<close>

fun int_digits :: "nat \<Rightarrow> string \<Rightarrow> nat option" where
  "int_digits acc [] = Some acc"
| "int_digits acc (c # cs) =
     (if is_digit c then int_digits (10 * acc + digit_val c) cs
      else if c = CHR ''_''
      then (case cs of
              [] \<Rightarrow> None
            | d # ds \<Rightarrow> if is_digit d then int_digits (10 * acc + digit_val d) ds else None)
      else None)"

definition py_nat :: "string \<Rightarrow> nat option" where
  "py_nat s =
     (case s of [] \<Rightarrow> None | c # cs \<Rightarrow> if is_digit c then int_digits (digit_val c) cs else None)"

definition too_many_digits :: "nat \<Rightarrow> string \<Rightarrow> bool" where
  "too_many_digits max_str_digits s =
     (0 < max_str_digits \<and> 640 < length (filter is_digit s)
        \<and> max_str_digits < length (filter is_digit s))"

definition py_int :: "nat \<Rightarrow> string \<Rightarrow> int option" where
  "py_int max_str_digits s =
     (if too_many_digits max_str_digits s then None
      else (case s of
              [] \<Rightarrow> None
            | c # cs \<Rightarrow>
                if c = CHR ''-'' then map_option (\<lambda>n. - int n) (py_nat cs)
                else if c = CHR ''+'' then map_option int (py_nat cs)
                else map_option int (py_nat s)))"

subsection \<open>The two prompting loops\<close>

text \<open>
  \<^verbatim>\<open>input(prompt)\<close> writes the prompt and reads the next line of standard input; it
  raises \<^verbatim>\<open>EOFError\<close>, which nothing catches, when no line is left. The pending lines
  are a list. A loop returns the value or the exception, what it wrote (prompts and
  printed messages, in order), and the lines it did not read.
\<close>

record 'a reply =
  answer :: "py_error + 'a"
  written :: "string list"
  unread :: "string list"

definition wrote :: "string list \<Rightarrow> 'a reply \<Rightarrow> 'a reply" where
  "wrote out r = r\<lparr>written := out @ written r\<rparr>"

fun get_valid_date_input :: "string \<Rightarrow> string list \<Rightarrow> (string option) reply" where
  "get_valid_date_input prompt [] = \<lparr>answer = Inl EOFError, written = [prompt], unread = []\<rparr>"
| "get_valid_date_input prompt (line # rest) =
     (let date_str = strip line in
      if date_str = [] then \<lparr>answer = Inr None, written = [prompt], unread = rest\<rparr>
      else (case strptime date_str of
              Some _ \<Rightarrow> \<lparr>answer = Inr (Some date_str), written = [prompt], unread = rest\<rparr>
            | None \<Rightarrow>
                wrote [prompt,
                  ''Invalid date format. Please use YYYY-MM-DD (e.g., 2025-12-31) or leave blank.'']
                  (get_valid_date_input prompt rest)))"

fun get_valid_task_id_input :: "nat \<Rightarrow> string \<Rightarrow> string list \<Rightarrow> int reply" where
  "get_valid_task_id_input max_str_digits prompt [] =
     \<lparr>answer = Inl EOFError, written = [prompt], unread = []\<rparr>"
| "get_valid_task_id_input max_str_digits prompt (line # rest) =
     (let task_id_str = strip line in
      case py_int max_str_digits task_id_str of
        Some task_id \<Rightarrow>
          if task_id \<le> 0
          then wrote [prompt, ''Task ID must be a positive number.'']
                 (get_valid_task_id_input max_str_digits prompt rest)
          else \<lparr>answer = Inr task_id, written = [prompt], unread = rest\<rparr>
      | None \<Rightarrow>
          wrote [prompt, ''Invalid input. Please enter a number for the Task ID.'']
            (get_valid_task_id_input max_str_digits prompt rest))"

section \<open>Orders and example data used in the statements\<close>

text \<open>
  The calendar date that a stored due date stands for, as \<^verbatim>\<open>strptime\<close> reads it.
  Dates compare as triples of year, month and day; a task without a due date comes before
  every task with one.
\<close>

definition due_day :: "string option \<Rightarrow> (nat \<times> nat \<times> nat) option" where
  "due_day due = (case due of None \<Rightarrow> None | Some s \<Rightarrow> strptime s)"

text \<open>The number that a text of digits denotes.\<close>

definition decimal :: "string \<Rightarrow> nat" where
  "decimal s = foldl (\<lambda>a c. 10 * a + digit_val c) 0 s"

text \<open>
  A valid calendar date in the fixed form \<^verbatim>\<open>YYYY-MM-DD\<close>, in the words of the program's
  docstring and messages: four digits, a hyphen, two digits, a hyphen, two digits, naming
  a day that exists.
\<close>

definition iso_date :: "string \<Rightarrow> bool" where
  "iso_date s =
     (length s = 10 \<and> s ! 4 = CHR ''-'' \<and> s ! 7 = CHR ''-''
      \<and> list_all is_digit (take 4 s) \<and> list_all is_digit (take 2 (drop 5 s))
      \<and> list_all is_digit (drop 8 s)
      \<and> valid_date (decimal (take 4 s)) (decimal (take 2 (drop 5 s))) (decimal (drop 8 s)))"

definition iso_dated :: "table \<Rightarrow> bool" where
  "iso_dated t =
     list_all (\<lambda>r. case due_date r of None \<Rightarrow> True | Some s \<Rightarrow> iso_date s) (rows t)"

text \<open>
  The wider form outside of which no text is taken for a date: a year of four digits, a
  month of one or two digits and a day of one or two digits, or of a space and a digit,
  separated by hyphens, naming a day that exists.
\<close>

fun split_on :: "char \<Rightarrow> string \<Rightarrow> string list" where
  "split_on c [] = [[]]"
| "split_on c (x # xs) =
     (if x = c then [] # split_on c xs
      else (case split_on c xs of [] \<Rightarrow> [[x]] | p # ps \<Rightarrow> (x # p) # ps))"

definition loose_date :: "string \<Rightarrow> bool" where
  "loose_date s =
     (case split_on CHR ''-'' s of
        [yy, mm, dd] \<Rightarrow>
          length yy = 4 \<and> list_all is_digit yy
          \<and> (length mm = 1 \<or> length mm = 2) \<and> list_all is_digit mm
          \<and> (length dd = 1 \<or> length dd = 2) \<and> is_digit (last dd)
          \<and> (is_digit (hd dd) \<or> hd dd = CHR '' '')
          \<and> valid_date (decimal yy) (decimal mm) (decimal (filter is_digit dd))
      | _ \<Rightarrow> False)"

text \<open>
  Two pending tasks whose due dates the date prompt accepts: the first of January, typed
  without leading zeros, and the second of January.
\<close>

definition january_table :: table where
  "january_table = \<lparr>rows =
     [\<lparr>rowid = 1, description = ''Pay rent'', due_date = Some ''2025-1-1'', completed = Some 0\<rparr>,
      \<lparr>rowid = 2, description = ''Buy milk'', due_date = Some ''2025-01-02'', completed = Some 0\<rparr>],
   seq = 2\<rparr>"

text \<open>The same with two completed tasks.\<close>

definition january_done_table :: table where
  "january_done_table = \<lparr>rows =
     [\<lparr>rowid = 1, description = ''Pay rent'', due_date = Some ''2025-1-1'', completed = Some 1\<rparr>,
      \<lparr>rowid = 2, description = ''Buy milk'', due_date = Some ''2025-01-02'', completed = Some 1\<rparr>],
   seq = 2\<rparr>"

definition example_table :: table where
  "example_table = \<lparr>rows =
     [\<lparr>rowid = 1, description = ''Pay rent'', due_date = Some ''2025-12-01'', completed = Some 0\<rparr>,
      \<lparr>rowid = 2, description = ''Buy milk'', due_date = None, completed = Some 1\<rparr>,
      \<lparr>rowid = 3, description = ''Call Ann'', due_date = Some ''2025-11-15'', completed = Some 0\<rparr>,
      \<lparr>rowid = 4, description = ''Walk dog'', due_date = None, completed = Some 0\<rparr>,
      \<lparr>rowid = 5, description = ''File tax'', due_date = Some ''2025-01-31'', completed = Some 1\<rparr>],
   seq = 5\<rparr>"

text \<open>
  What SQLite guarantees of a table with this schema, whatever wrote it: the primary key
  is unique, and the \<^verbatim>\<open>sqlite_sequence\<close> entry of the \<^verbatim>\<open>AUTOINCREMENT\<close> column
  is not below any rowid of the table.
\<close>

definition valid_table :: "table \<Rightarrow> bool" where
  "valid_table t =
     (distinct (map rowid (rows t)) \<and> list_all (\<lambda>r. rowid r \<le> seq t) (rows t) \<and> 0 \<le> seq t)"

definition valid :: "database \<Rightarrow> bool" where
  "valid db = (case db of None \<Rightarrow> True | Some t \<Rightarrow> valid_table t)"

text \<open>The largest id handed out so far.\<close>

definition high_water :: "database \<Rightarrow> int" where
  "high_water db = (case db of None \<Rightarrow> 0 | Some t \<Rightarrow> seq t)"

text \<open>Every row is pending (0) or completed (1).\<close>

definition flags_binary :: "database \<Rightarrow> bool" where
  "flags_binary db = list_all (\<lambda>r. completed r = Some 0 \<or> completed r = Some 1) (all_rows db)"

section \<open>Basic facts about the statements\<close>

lemma fold_max_ge: "(a::int) \<le> fold max xs a"
proof (induction xs arbitrary: a)
  case Nil
  show ?case by simp
next
  case (Cons x xs)
  have "a \<le> max x a" by simp
  also have "\<dots> \<le> fold max xs (max x a)" by (rule Cons.IH)
  finally show ?case by simp
qed

lemma fold_max_upper: "x \<in> set xs \<Longrightarrow> (x::int) \<le> fold max xs a"
proof (induction xs arbitrary: a)
  case Nil
  then show ?case by simp
next
  case (Cons y ys)
  show ?case
  proof (cases "x = y")
    case True
    have "x \<le> max y a" using True by simp
    also have "\<dots> \<le> fold max ys (max y a)" by (rule fold_max_ge)
    finally show ?thesis by simp
  next
    case False
    with Cons.prems have "x \<in> set ys" by simp
    then show ?thesis using Cons.IH by simp
  qed
qed

lemma rowid_less_next: "r \<in> set (rows t) \<Longrightarrow> rowid r < next_rowid t"
proof -
  assume "r \<in> set (rows t)"
  then have "rowid r \<in> set (map rowid (rows t))" by simp
  then have "rowid r \<le> fold max (map rowid (rows t)) 0" by (rule fold_max_upper)
  then show ?thesis by (simp add: next_rowid_def)
qed

lemma seq_less_next: "seq t < next_rowid t"
  by (simp add: next_rowid_def)

lemma next_rowid_positive: "0 < next_rowid t"
proof -
  have "(0::int) \<le> fold max (map rowid (rows t)) 0" by (rule fold_max_ge)
  then show ?thesis by (simp add: next_rowid_def)
qed

lemma rowcount_zero:
  "(length (filter (\<lambda>r. rowid r = k) rs) = 0) = (k \<notin> set (map rowid rs))"
  by (induction rs) auto

text \<open>The storage functions when the engine works and the table exists.\<close>

lemma add_task_Healthy:
  "add_task Healthy descr due (Some t) =
     \<lparr>store = Some (sql_insert descr due t),
      printed = [''Task '' @ quote descr @ '' added successfully!''],
      returned = PyNone, raised = None\<rparr>"
  by (simp add: add_task_def connect_db_def execute_def)

lemma complete_task_Healthy:
  "sqlite_integer k \<Longrightarrow> complete_task Healthy k (Some t) =
     (if k \<in> set (map rowid (rows t))
      then \<lparr>store = Some (fst (sql_update k t)),
            printed = [''Task '' @ str_int k @ '' marked as completed!''],
            returned = PyNone, raised = None\<rparr>
      else \<lparr>store = Some t,
            printed = [''Task '' @ str_int k @ '' not found or already completed.''],
            returned = PyNone, raised = None\<rparr>)"
  using rowcount_zero [of k "rows t"]
  by (simp add: complete_task_def connect_db_def execute_def sql_update_def del: set_map)

lemma delete_task_Healthy:
  "sqlite_integer k \<Longrightarrow> delete_task Healthy k (Some t) =
     (if k \<in> set (map rowid (rows t))
      then \<lparr>store = Some (fst (sql_delete k t)),
            printed = [''Task '' @ str_int k @ '' deleted successfully!''],
            returned = PyNone, raised = None\<rparr>
      else \<lparr>store = Some t,
            printed = [''Task '' @ str_int k @ '' not found.''],
            returned = PyNone, raised = None\<rparr>)"
  using rowcount_zero [of k "rows t"]
  by (simp add: delete_task_def connect_db_def execute_def sql_delete_def del: set_map)


section \<open>Completing a task\<close>

text \<open>
  C1. The claim: \<^verbatim>\<open>complete_task\<close> on an id that does not exist or whose task is
  already completed reports no match and leaves the table as it was, and reports success
  only for a pending task. The \<^verbatim>\<open>UPDATE\<close> selects on the id alone, so for a task that
  is already completed \<^verbatim>\<open>rowcount\<close> is 1: on the table holding the completed task 1 the
  call leaves the table as it was and prints the success message, not the message
  \<^verbatim>\<open>not found or already completed\<close> that the function keeps for this case.
\<close>

theorem complete_task_twice_reports_success:
  "store (complete_task Healthy 1
      (Some \<lparr>rows = [\<lparr>rowid = 1, description = ''Buy milk'', due_date = None,
                      completed = Some 1\<rparr>], seq = 1\<rparr>))
     = Some \<lparr>rows = [\<lparr>rowid = 1, description = ''Buy milk'', due_date = None,
                      completed = Some 1\<rparr>], seq = 1\<rparr>
   \<and> printed (complete_task Healthy 1
      (Some \<lparr>rows = [\<lparr>rowid = 1, description = ''Buy milk'', due_date = None,
                      completed = Some 1\<rparr>], seq = 1\<rparr>))
     = [''Task 1 marked as completed!'']"
  by (simp add: complete_task_Healthy sqlite_integer_def sql_update_def str_int_def)


section \<open>Adding a task\<close>

text \<open>
  C2, as the claim states it: \<^verbatim>\<open>add_task\<close> returns the id of the new row to its
  caller. It does not: on the empty table the new row gets id 1 and the call returns
  \<^verbatim>\<open>None\<close>.
\<close>

theorem add_task_returns_no_id:
  "store (add_task Healthy ''Buy milk'' (Some ''2025-12-31'') (Some \<lparr>rows = [], seq = 0\<rparr>))
     = Some \<lparr>rows = [\<lparr>rowid = 1, description = ''Buy milk'', due_date = Some ''2025-12-31'',
                        completed = Some 0\<rparr>], seq = 1\<rparr>
   \<and> returned (add_task Healthy ''Buy milk'' (Some ''2025-12-31'') (Some \<lparr>rows = [], seq = 0\<rparr>))
     = PyNone
   \<and> returned (add_task Healthy ''Buy milk'' (Some ''2025-12-31'') (Some \<lparr>rows = [], seq = 0\<rparr>))
     \<noteq> PyInt 1"
  by (simp add: add_task_Healthy sql_insert_def next_rowid_def)

text \<open>
  C2, amended: for every description and every due date (absent or not), \<^verbatim>\<open>add_task\<close>
  on a working engine appends exactly one row to the table, with the given description
  and due date and \<^verbatim>\<open>completed = 0\<close>; the id of the new row is greater than the id
  of every row of the table and than every id handed out before; the call returns
  \<^verbatim>\<open>None\<close>, not the id, and raises nothing.
\<close>

theorem add_task_inserts_one_row:
  "\<exists>t'. store (add_task Healthy descr due (Some t)) = Some t'
     \<and> rows t' = rows t @ [\<lparr>rowid = next_rowid t, description = descr, due_date = due,
                              completed = Some 0\<rparr>]
     \<and> (\<forall>r \<in> set (rows t). rowid r < next_rowid t)
     \<and> seq t < next_rowid t
     \<and> returned (add_task Healthy descr due (Some t)) = PyNone
     \<and> raised (add_task Healthy descr due (Some t)) = None"
  by (simp add: add_task_Healthy sql_insert_def rowid_less_next seq_less_next)

theorem add_task_inserts_one_row_witness:
  "store (add_task Healthy ''Call Ann'' None
      (Some \<lparr>rows = [\<lparr>rowid = 3, description = ''Buy milk'', due_date = Some ''2025-12-31'',
                      completed = Some 1\<rparr>], seq = 5\<rparr>))
     = Some \<lparr>rows = [\<lparr>rowid = 3, description = ''Buy milk'', due_date = Some ''2025-12-31'',
                        completed = Some 1\<rparr>,
                      \<lparr>rowid = 6, description = ''Call Ann'', due_date = None,
                        completed = Some 0\<rparr>], seq = 6\<rparr>
   \<and> (3::int) < 6 \<and> (5::int) < 6"
  using add_task_inserts_one_row [of "''Call Ann''" None
      "\<lparr>rows = [\<lparr>rowid = 3, description = ''Buy milk'', due_date = Some ''2025-12-31'',
                 completed = Some 1\<rparr>], seq = 5\<rparr>"]
  by (simp add: add_task_Healthy sql_insert_def next_rowid_def)


section \<open>Runs of storage calls\<close>

text \<open>What a single call can do to the stored content, whatever the engine does.\<close>

lemma run_command_store:
  "store (run_command c db) = db
   \<or> (db = None \<and> store (run_command c db) = Some \<lparr>rows = [], seq = 0\<rparr>)
   \<or> (\<exists>t descr due. db = Some t \<and> store (run_command c db) = Some (sql_insert descr due t))
   \<or> (\<exists>t k. db = Some t \<and> store (run_command c db) = Some (fst (sql_update k t)))
   \<or> (\<exists>t k. db = Some t \<and> store (run_command c db) = Some (fst (sql_delete k t)))"
proof (cases c)
  case (Pair eng cmd)
  show ?thesis
  proof (cases cmd)
    case Create_Table
    with Pair show ?thesis
      by (cases eng; cases db) (simp_all add: create_table_def connect_db_def)
  next
    case (Add_Task descr due)
    with Pair show ?thesis
      by (cases eng; cases db) (auto simp add: add_task_def connect_db_def execute_def)
  next
    case (View_Tasks show_completed)
    with Pair show ?thesis
      by (cases eng; cases db) (simp_all add: view_tasks_def connect_db_def execute_def)
  next
    case (Complete_Task k)
    with Pair show ?thesis
      by (cases eng; cases db)
        (auto simp add: complete_task_def connect_db_def execute_def case_prod_beta)
  next
    case (Delete_Task k)
    with Pair show ?thesis
      by (cases eng; cases db)
        (auto simp add: delete_task_def connect_db_def execute_def case_prod_beta)
  qed
qed

lemma valid_next_rowid: "valid_table t \<Longrightarrow> next_rowid t = seq t + 1"
proof -
  assume v: "valid_table t"
  have "fold max (map rowid (rows t)) 0 \<le> seq t"
  proof (rule ccontr)
    assume "\<not> fold max (map rowid (rows t)) 0 \<le> seq t"
    then have gt: "seq t < fold max (map rowid (rows t)) 0" by simp
    have "fold max xs (a::int) = a \<or> fold max xs a \<in> set xs" for xs a
      by (induction xs arbitrary: a) (auto simp: max_def)
    then have "fold max (map rowid (rows t)) 0 = 0
               \<or> fold max (map rowid (rows t)) 0 \<in> set (map rowid (rows t))" .
    then show False using gt v by (auto simp: valid_table_def list_all_iff)
  qed
  then show ?thesis by (simp add: next_rowid_def)
qed

lemma valid_insert:
  assumes "valid_table t"
  shows "valid_table (sql_insert descr due t)"
    and "seq (sql_insert descr due t) = seq t + 1"
    and "map rowid (rows (sql_insert descr due t)) = map rowid (rows t) @ [seq t + 1]"
    and "seq t + 1 \<notin> set (map rowid (rows t))"
  using assms valid_next_rowid [OF assms]
  by (auto simp: valid_table_def sql_insert_def list_all_iff)

lemma valid_update:
  assumes "valid_table t"
  shows "valid_table (fst (sql_update k t))"
    and "seq (fst (sql_update k t)) = seq t"
    and "map rowid (rows (fst (sql_update k t))) = map rowid (rows t)"
proof -
  show m: "map rowid (rows (fst (sql_update k t))) = map rowid (rows t)"
    by (simp add: sql_update_def comp_def if_distrib cong: if_cong)
  show s: "seq (fst (sql_update k t)) = seq t" by (simp add: sql_update_def)
  have "list_all (\<lambda>r. rowid r \<le> seq t) (rows (fst (sql_update k t)))"
    using assms by (auto simp: valid_table_def sql_update_def list_all_iff)
  then show "valid_table (fst (sql_update k t))"
    using assms m s by (simp add: valid_table_def)
qed

lemma valid_delete:
  assumes "valid_table t"
  shows "valid_table (fst (sql_delete k t))"
    and "seq (fst (sql_delete k t)) = seq t"
    and "set (map rowid (rows (fst (sql_delete k t)))) = set (map rowid (rows t)) - {k}"
  using assms
  by (auto simp: valid_table_def sql_delete_def list_all_iff distinct_map_filter)

lemma step_effect:
  assumes "valid db"
  shows "valid (store (run_command c db))
     \<and> ((fresh_ids db (store (run_command c db)) = []
          \<and> high_water (store (run_command c db)) = high_water db
          \<and> set (ids (store (run_command c db))) \<subseteq> set (ids db))
        \<or> (fresh_ids db (store (run_command c db)) = [high_water db + 1]
          \<and> high_water (store (run_command c db)) = high_water db + 1
          \<and> set (ids (store (run_command c db))) = insert (high_water db + 1) (set (ids db))))"
  using run_command_store [of c db]
proof (elim disjE exE conjE)
  assume "store (run_command c db) = db"
  then show ?thesis using assms by (simp add: fresh_ids_def)
next
  assume "db = None" "store (run_command c db) = Some \<lparr>rows = [], seq = 0\<rparr>"
  then show ?thesis
    by (simp add: fresh_ids_def valid_def valid_table_def high_water_def ids_def all_rows_def)
next
  fix t descr due
  assume h: "db = Some t" "store (run_command c db) = Some (sql_insert descr due t)"
  then have v: "valid_table t" using assms by (simp add: valid_def)
  show ?thesis
    using h valid_insert [OF v]
    by (simp add: fresh_ids_def valid_def high_water_def ids_def all_rows_def)
next
  fix t k
  assume h: "db = Some t" "store (run_command c db) = Some (fst (sql_update k t))"
  then have v: "valid_table t" using assms by (simp add: valid_def)
  show ?thesis
    using h valid_update [OF v]
    by (simp add: fresh_ids_def valid_def high_water_def ids_def all_rows_def)
next
  fix t k
  assume h: "db = Some t" "store (run_command c db) = Some (fst (sql_delete k t))"
  then have v: "valid_table t" using assms by (simp add: valid_def)
  have "filter (\<lambda>i. i \<notin> set (map rowid (rows t))) (map rowid (rows (fst (sql_delete k t)))) = []"
    using valid_delete(3) [OF v] by (auto simp: filter_empty_conv)
  then show ?thesis
    using h valid_delete [OF v]
    by (auto simp add: fresh_ids_def valid_def high_water_def ids_def all_rows_def)
qed

lemma valid_ids_le: "valid db \<Longrightarrow> i \<in> set (ids db) \<Longrightarrow> i \<le> high_water db"
  by (auto simp: valid_def ids_def all_rows_def high_water_def valid_table_def list_all_iff
      split: option.splits)

lemma valid_run: "valid db \<Longrightarrow> valid (run_commands cs db)"
proof (induction cs arbitrary: db)
  case Nil
  then show ?case by simp
next
  case (Cons c cs)
  from step_effect [OF Cons.prems, of c] have "valid (store (run_command c db))" by blast
  then show ?case using Cons.IH by simp
qed

lemma high_water_run: "valid db \<Longrightarrow> high_water db \<le> high_water (run_commands cs db)"
proof (induction cs arbitrary: db)
  case Nil
  then show ?case by simp
next
  case (Cons c cs)
  from step_effect [OF Cons.prems, of c]
  have v: "valid (store (run_command c db))"
    and h: "high_water db \<le> high_water (store (run_command c db))" by auto
  from Cons.IH [OF v] h show ?case by simp
qed

lemma assigned_bounds:
  "valid db \<Longrightarrow> i \<in> set (assigned cs db)
     \<Longrightarrow> high_water db < i \<and> i \<le> high_water (run_commands cs db)"
proof (induction cs arbitrary: db)
  case Nil
  then show ?case by simp
next
  case (Cons c cs)
  let ?db' = "store (run_command c db)"
  from step_effect [OF Cons.prems(1), of c]
  have v: "valid ?db'"
    and f: "fresh_ids db ?db' = [] \<and> high_water ?db' = high_water db
            \<or> fresh_ids db ?db' = [high_water db + 1] \<and> high_water ?db' = high_water db + 1"
    by auto
  from Cons.prems(2) have "i \<in> set (fresh_ids db ?db') \<or> i \<in> set (assigned cs ?db')" by simp
  then show ?case
  proof
    assume "i \<in> set (fresh_ids db ?db')"
    with f have "i = high_water db + 1" "high_water ?db' = high_water db + 1" by auto
    with high_water_run [OF v, of cs] show ?thesis by simp
  next
    assume "i \<in> set (assigned cs ?db')"
    from Cons.IH [OF v this] f show ?thesis by auto
  qed
qed

lemma assigned_increasing: "valid db \<Longrightarrow> sorted_wrt (<) (assigned cs db)"
proof (induction cs arbitrary: db)
  case Nil
  then show ?case by simp
next
  case (Cons c cs)
  let ?db' = "store (run_command c db)"
  from step_effect [OF Cons.prems(1), of c]
  have v: "valid ?db'"
    and f: "fresh_ids db ?db' = [] \<and> high_water ?db' = high_water db
            \<or> fresh_ids db ?db' = [high_water db + 1] \<and> high_water ?db' = high_water db + 1"
    by auto
  have "\<forall>x \<in> set (fresh_ids db ?db'). \<forall>y \<in> set (assigned cs ?db'). x < y"
    using f assigned_bounds [OF v] by fastforce
  moreover have "sorted_wrt (<) (fresh_ids db ?db')" using f by auto
  ultimately show ?case using Cons.IH [OF v] by (simp add: sorted_wrt_append)
qed

lemma ids_were_assigned:
  "valid db \<Longrightarrow> set (ids (run_commands cs db)) \<subseteq> set (ids db) \<union> set (assigned cs db)"
proof (induction cs arbitrary: db)
  case Nil
  then show ?case by simp
next
  case (Cons c cs)
  let ?db' = "store (run_command c db)"
  from step_effect [OF Cons.prems(1), of c]
  have v: "valid ?db'" and s: "set (ids ?db') \<subseteq> set (ids db) \<union> set (fresh_ids db ?db')"
    by auto
  from Cons.IH [OF v] s show ?case by auto
qed

lemma assigned_append:
  "assigned (cs @ ds) db = assigned cs db @ assigned ds (run_commands cs db)"
  by (induction cs arbitrary: db) simp_all

lemma valid_distinct: "valid db \<Longrightarrow> distinct (ids db)"
  by (simp add: valid_def ids_def all_rows_def valid_table_def split: option.splits)

lemma fresh_after_add:
  assumes "valid_table t"
  shows "fresh_ids (Some t) (store (add_task Healthy descr due (Some t))) = [next_rowid t]"
  using valid_insert [OF assms] valid_next_rowid [OF assms]
  by (simp add: add_task_Healthy fresh_ids_def ids_def all_rows_def)

text \<open>
  C5. Take any sequence of storage calls on a fresh database file, each call with any
  behaviour of the engine. The ids assigned in the course of the run, in the order of
  assignment, are strictly increasing, so no id is assigned twice, whether or not the row
  that held it has been deleted in between; the ids in the table are distinct and each of
  them was assigned in the run; and a further \<^verbatim>\<open>add_task\<close> assigns exactly one id,
  greater than every id assigned before.
\<close>

theorem ids_never_reused:
  "sorted_wrt (<) (assigned cs None)
   \<and> distinct (assigned cs None)
   \<and> distinct (ids (run_commands cs None))
   \<and> set (ids (run_commands cs None)) \<subseteq> set (assigned cs None)
   \<and> (\<forall>t. run_commands cs None = Some t \<longrightarrow>
         assigned (cs @ [(Healthy, Add_Task descr due)]) None = assigned cs None @ [next_rowid t]
         \<and> (\<forall>i \<in> set (assigned cs None). i < next_rowid t))"
proof -
  have v0: "valid None" by (simp add: valid_def)
  have inc: "sorted_wrt (<) (assigned cs None)" by (rule assigned_increasing [OF v0])
  have "distinct (assigned cs None)"
    using inc by (simp add: strict_sorted_iff)
  moreover have "distinct (ids (run_commands cs None))"
    by (rule valid_distinct [OF valid_run [OF v0]])
  moreover have "set (ids (run_commands cs None)) \<subseteq> set (assigned cs None)"
    using ids_were_assigned [OF v0, of cs] by (simp add: ids_def all_rows_def)
  moreover have "\<forall>t. run_commands cs None = Some t \<longrightarrow>
         assigned (cs @ [(Healthy, Add_Task descr due)]) None = assigned cs None @ [next_rowid t]
         \<and> (\<forall>i \<in> set (assigned cs None). i < next_rowid t)"
  proof (intro allI impI conjI ballI)
    fix t
    assume r: "run_commands cs None = Some t"
    with valid_run [OF v0, of cs] have vt: "valid_table t" by (simp add: valid_def)
    show "assigned (cs @ [(Healthy, Add_Task descr due)]) None
            = assigned cs None @ [next_rowid t]"
      using fresh_after_add [OF vt, of descr due] r by (simp add: assigned_append)
    fix i
    assume "i \<in> set (assigned cs None)"
    from assigned_bounds [OF v0 this] r have "i \<le> seq t" by (simp add: high_water_def)
    then show "i < next_rowid t" using valid_next_rowid [OF vt] by simp
  qed
  ultimately show ?thesis using inc by blast
qed



theorem ids_never_reused_witness:
  "assigned [(Healthy, Create_Table), (Healthy, Add_Task ''Buy milk'' None),
             (Healthy, Add_Task ''Call Ann'' None), (Healthy, Delete_Task 2),
             (Healthy, Complete_Task 1)] None = [1, 2]
   \<and> ids (run_commands [(Healthy, Create_Table), (Healthy, Add_Task ''Buy milk'' None),
             (Healthy, Add_Task ''Call Ann'' None), (Healthy, Delete_Task 2),
             (Healthy, Complete_Task 1)] None) = [1]
   \<and> assigned ([(Healthy, Create_Table), (Healthy, Add_Task ''Buy milk'' None),
             (Healthy, Add_Task ''Call Ann'' None), (Healthy, Delete_Task 2),
             (Healthy, Complete_Task 1)] @ [(Healthy, Add_Task ''Walk dog'' None)]) None
       = [1, 2, 3]"
  using ids_never_reused [of "[(Healthy, Create_Table), (Healthy, Add_Task ''Buy milk'' None),
             (Healthy, Add_Task ''Call Ann'' None), (Healthy, Delete_Task 2),
             (Healthy, Complete_Task 1)]" "''Walk dog''" None]
  by (simp add: create_table_def connect_db_def add_task_Healthy complete_task_Healthy sqlite_integer_def
      delete_task_Healthy sqlite_integer_def sql_insert_def sql_update_def sql_delete_def next_rowid_def
      fresh_ids_def ids_def all_rows_def)


section \<open>The completed flag\<close>

lemma flags_step:
  assumes "flags_binary db"
  shows "flags_binary (store (run_command c db))"
  using run_command_store [of c db]
proof (elim disjE exE conjE)
  assume "store (run_command c db) = db"
  then show ?thesis using assms by simp
next
  assume "db = None" "store (run_command c db) = Some \<lparr>rows = [], seq = 0\<rparr>"
  then show ?thesis by (simp add: flags_binary_def all_rows_def)
next
  fix t descr due
  assume "db = Some t" "store (run_command c db) = Some (sql_insert descr due t)"
  then show ?thesis using assms by (simp add: flags_binary_def all_rows_def sql_insert_def)
next
  fix t k
  assume "db = Some t" "store (run_command c db) = Some (fst (sql_update k t))"
  then show ?thesis
    using assms by (auto simp add: flags_binary_def all_rows_def sql_update_def list_all_iff)
next
  fix t k
  assume "db = Some t" "store (run_command c db) = Some (fst (sql_delete k t))"
  then show ?thesis
    using assms by (auto simp add: flags_binary_def all_rows_def sql_delete_def list_all_iff)
qed

lemma flags_run: "flags_binary db \<Longrightarrow> flags_binary (run_commands cs db)"
  by (induction cs arbitrary: db) (simp_all add: flags_step)

text \<open>
  C10. After any sequence of \<^verbatim>\<open>create_table\<close>, \<^verbatim>\<open>add_task\<close>, \<^verbatim>\<open>view_tasks\<close>,
  \<^verbatim>\<open>complete_task\<close> and \<^verbatim>\<open>delete_task\<close> on a fresh database file, every row has
  \<^verbatim>\<open>completed\<close> equal to 0 or to 1, and never \<^verbatim>\<open>NULL\<close>, although the column type
  admits both \<^verbatim>\<open>NULL\<close> and other integers.
\<close>

theorem completed_is_0_or_1:
  "\<forall>r \<in> set (all_rows (run_commands cs None)).
     (completed r = Some 0 \<or> completed r = Some 1) \<and> completed r \<noteq> None"
proof -
  have "flags_binary None" by (simp add: flags_binary_def all_rows_def)
  then have "flags_binary (run_commands cs None)" by (rule flags_run)
  then show ?thesis by (auto simp: flags_binary_def list_all_iff)
qed

theorem completed_is_0_or_1_witness:
  "all_rows (run_commands [(Healthy, Create_Table), (Healthy, Add_Task ''Buy milk'' None),
             (Healthy, Add_Task ''Call Ann'' (Some ''2025-11-15'')),
             (Healthy, Complete_Task 1)] None)
     = [\<lparr>rowid = 1, description = ''Buy milk'', due_date = None, completed = Some 1\<rparr>,
        \<lparr>rowid = 2, description = ''Call Ann'', due_date = Some ''2025-11-15'',
          completed = Some 0\<rparr>]
   \<and> completed \<lparr>rowid = 1, description = ''Buy milk'', due_date = None, completed = Some 1\<rparr>
       = Some 1
   \<and> completed \<lparr>rowid = 2, description = ''Call Ann'', due_date = Some ''2025-11-15'',
          completed = Some 0\<rparr> = Some 0"
  using completed_is_0_or_1 [of "[(Healthy, Create_Table), (Healthy, Add_Task ''Buy milk'' None),
             (Healthy, Add_Task ''Call Ann'' (Some ''2025-11-15'')),
             (Healthy, Complete_Task 1)]"]
  by (simp add: create_table_def connect_db_def add_task_Healthy complete_task_Healthy sqlite_integer_def
      sql_insert_def sql_update_def next_rowid_def all_rows_def)


section \<open>Deleting a task\<close>

lemma table_stays: "\<exists>t'. run_commands cs (Some t) = Some t'"
proof (induction cs arbitrary: t)
  case Nil
  show ?case by simp
next
  case (Cons c cs)
  from run_command_store [of c "Some t"]
  obtain u where "store (run_command c (Some t)) = Some u" by auto
  with Cons.IH [of u] show ?case by simp
qed

lemma absent_stays:
  "valid db \<Longrightarrow> k \<le> high_water db \<Longrightarrow> k \<notin> set (ids db)
     \<Longrightarrow> k \<notin> set (ids (run_commands cs db))"
proof -
  assume v: "valid db" and le: "k \<le> high_water db" and notin: "k \<notin> set (ids db)"
  have "set (ids (run_commands cs db)) \<subseteq> set (ids db) \<union> set (assigned cs db)"
    by (rule ids_were_assigned [OF v])
  moreover have "k \<notin> set (assigned cs db)"
    using assigned_bounds [OF v, of k cs] le by auto
  ultimately show ?thesis using notin by auto
qed

lemma filter_key_none: "v \<notin> set (map f xs) \<Longrightarrow> filter (\<lambda>y. f y = v) xs = []"
  by (induction xs) auto

lemma filter_key_single:
  "distinct (map f xs) \<Longrightarrow> x \<in> set xs \<Longrightarrow> filter (\<lambda>y. f y = f x) xs = [x]"
proof (induction xs)
  case Nil
  then show ?case by simp
next
  case (Cons a xs)
  show ?case
  proof (cases "a = x")
    case True
    with Cons.prems(1) have "f x \<notin> set (map f xs)" by simp
    then have "filter (\<lambda>y. f y = f x) xs = []" by (rule filter_key_none)
    with True show ?thesis by simp
  next
    case False
    with Cons.prems have "x \<in> set xs" "f a \<noteq> f x" by auto
    with Cons show ?thesis by simp
  qed
qed

lemma delete_one_row:
  assumes "distinct (map rowid (rows t))" "r \<in> set (rows t)"
  shows "mset (rows t) = add_mset r (mset (filter (\<lambda>x. rowid x \<noteq> rowid r) (rows t)))"
proof -
  have "mset (rows t) = mset (filter (\<lambda>x. rowid x = rowid r) (rows t))
                        + mset (filter (\<lambda>x. rowid x \<noteq> rowid r) (rows t))"
    by (simp add: mset_filter)
  then show ?thesis using filter_key_single [OF assms, of ] by simp
qed

text \<open>
  For an id within the range of an SQLite integer, in a table as SQLite keeps it (unique
  ids, none above the sequence entry): \<^verbatim>\<open>delete_task\<close> on the id of an existing task
  reports success and removes exactly the one row with that id; after any further
  sequence of storage calls the id is still absent, so \<^verbatim>\<open>complete_task\<close> and
  \<^verbatim>\<open>delete_task\<close> on it report no match and change nothing. On an id that is not in
  the table \<^verbatim>\<open>delete_task\<close> reports no match and leaves the table as it was.
\<close>

lemma delete_task_in_range:
  "valid_table t \<Longrightarrow> sqlite_integer k \<Longrightarrow>
     (k \<in> set (map rowid (rows t)) \<longrightarrow>
        (\<exists>t' r. store (delete_task Healthy k (Some t)) = Some t'
           \<and> printed (delete_task Healthy k (Some t))
               = [''Task '' @ str_int k @ '' deleted successfully!'']
           \<and> r \<in> set (rows t) \<and> rowid r = k
           \<and> mset (rows t) = add_mset r (mset (rows t'))
           \<and> k \<notin> set (map rowid (rows t'))
           \<and> (\<forall>cs. k \<notin> set (ids (run_commands cs (Some t')))
                 \<and> store (complete_task Healthy k (run_commands cs (Some t')))
                       = run_commands cs (Some t')
                 \<and> printed (complete_task Healthy k (run_commands cs (Some t')))
                       = [''Task '' @ str_int k @ '' not found or already completed.'']
                 \<and> store (delete_task Healthy k (run_commands cs (Some t')))
                       = run_commands cs (Some t')
                 \<and> printed (delete_task Healthy k (run_commands cs (Some t')))
                       = [''Task '' @ str_int k @ '' not found.''])))
   \<and> (k \<notin> set (map rowid (rows t)) \<longrightarrow>
        store (delete_task Healthy k (Some t)) = Some t
        \<and> printed (delete_task Healthy k (Some t)) = [''Task '' @ str_int k @ '' not found.''])"
proof (intro conjI impI)
  assume v: "valid_table t" and i: "sqlite_integer k" and "k \<notin> set (map rowid (rows t))"
  then show "store (delete_task Healthy k (Some t)) = Some t"
    and "printed (delete_task Healthy k (Some t)) = [''Task '' @ str_int k @ '' not found.'']"
    using i by (simp_all add: delete_task_Healthy del: set_map)
next
  assume v: "valid_table t" and i: "sqlite_integer k" and k: "k \<in> set (map rowid (rows t))"
  let ?t' = "fst (sql_delete k t)"
  from k obtain r where r: "r \<in> set (rows t)" "rowid r = k" by auto
  have d: "distinct (map rowid (rows t))" using v by (simp add: valid_table_def)
  have rows': "rows ?t' = filter (\<lambda>x. rowid x \<noteq> k) (rows t)" by (simp add: sql_delete_def)
  have v': "valid (Some ?t')" using valid_delete(1) [OF v] by (simp add: valid_def)
  have le: "k \<le> high_water (Some ?t')"
    using v r valid_delete(2) [OF v, of k]
    by (auto simp: high_water_def valid_table_def list_all_iff)
  have gone: "k \<notin> set (ids (Some ?t'))" by (auto simp add: ids_def all_rows_def rows')
  have later: "k \<notin> set (ids (run_commands cs (Some ?t')))
       \<and> store (complete_task Healthy k (run_commands cs (Some ?t')))
             = run_commands cs (Some ?t')
       \<and> printed (complete_task Healthy k (run_commands cs (Some ?t')))
             = [''Task '' @ str_int k @ '' not found or already completed.'']
       \<and> store (delete_task Healthy k (run_commands cs (Some ?t')))
             = run_commands cs (Some ?t')
       \<and> printed (delete_task Healthy k (run_commands cs (Some ?t')))
             = [''Task '' @ str_int k @ '' not found.'']" for cs
  proof -
    obtain u where u: "run_commands cs (Some ?t') = Some u" using table_stays by blast
    have "k \<notin> set (ids (run_commands cs (Some ?t')))"
      by (rule absent_stays [OF v' le gone])
    then have "k \<notin> set (map rowid (rows u))" using u by (simp add: ids_def all_rows_def)
    then show ?thesis
      using u i by (simp add: complete_task_Healthy delete_task_Healthy ids_def all_rows_def
          del: set_map)
  qed
  have "store (delete_task Healthy k (Some t)) = Some ?t'"
    and "printed (delete_task Healthy k (Some t))
               = [''Task '' @ str_int k @ '' deleted successfully!'']"
    using k i by (simp_all add: delete_task_Healthy del: set_map)
  moreover have "mset (rows t) = add_mset r (mset (rows ?t'))"
    using delete_one_row [OF d r(1)] r(2) rows' by simp
  moreover have "k \<notin> set (map rowid (rows ?t'))" by (auto simp add: rows')
  ultimately show "\<exists>t' r. store (delete_task Healthy k (Some t)) = Some t'
           \<and> printed (delete_task Healthy k (Some t))
               = [''Task '' @ str_int k @ '' deleted successfully!'']
           \<and> r \<in> set (rows t) \<and> rowid r = k
           \<and> mset (rows t) = add_mset r (mset (rows t'))
           \<and> k \<notin> set (map rowid (rows t'))
           \<and> (\<forall>cs. k \<notin> set (ids (run_commands cs (Some t')))
                 \<and> store (complete_task Healthy k (run_commands cs (Some t')))
                       = run_commands cs (Some t')
                 \<and> printed (complete_task Healthy k (run_commands cs (Some t')))
                       = [''Task '' @ str_int k @ '' not found or already completed.'']
                 \<and> store (delete_task Healthy k (run_commands cs (Some t')))
                       = run_commands cs (Some t')
                 \<and> printed (delete_task Healthy k (run_commands cs (Some t')))
                       = [''Task '' @ str_int k @ '' not found.''])"
    using r later by blast
qed

text \<open>
  C6. The claim: for every id, \<^verbatim>\<open>delete_task\<close> on an id without a task reports no
  match, as do \<^verbatim>\<open>complete_task\<close> and \<^verbatim>\<open>delete_task\<close> on an id whose task has
  been deleted. The id prompt accepts every positive integer, among them
  9223372036854775808, which is 2 to the power 63 and no SQLite integer. On it
  \<^verbatim>\<open>cursor.execute\<close> raises \<^verbatim>\<open>OverflowError\<close>, which the handler for
  \<^verbatim>\<open>sqlite3.Error\<close> does not catch: \<^verbatim>\<open>delete_task\<close> and \<^verbatim>\<open>complete_task\<close>
  print nothing, neither the message for no match nor an error, and end with the
  exception; the table is left as it was.
\<close>

theorem delete_task_huge_id_raises:
  "answer (get_valid_task_id_input 4300 ''ID: '' [''9223372036854775808''])
     = Inr 9223372036854775808
   \<and> 9223372036854775808 \<notin> set (map rowid (rows example_table))
   \<and> delete_task Healthy 9223372036854775808 (Some example_table)
       = \<lparr>store = Some example_table, printed = [], returned = PyNone,
          raised = Some OverflowError\<rparr>
   \<and> complete_task Healthy 9223372036854775808 (Some example_table)
       = \<lparr>store = Some example_table, printed = [], returned = PyNone,
          raised = Some OverflowError\<rparr>"
proof -
  have s: "strip ''9223372036854775808'' = ''9223372036854775808''"
    by (simp add: strip_def isspace_def)
  have n: "py_nat ''9223372036854775808'' = Some 9223372036854775808"
    by (simp add: py_nat_def is_digit_def digit_val_def)
  have p: "py_int 4300 ''9223372036854775808'' = Some 9223372036854775808"
    by (simp add: py_int_def too_many_digits_def n is_digit_def)
  have o: "\<not> sqlite_integer 9223372036854775808"
    by (simp add: sqlite_integer_def)
  have "answer (get_valid_task_id_input 4300 ''ID: '' [''9223372036854775808''])
     = Inr 9223372036854775808"
    by (simp add: Let_def s p)
  moreover have "9223372036854775808 \<notin> set (map rowid (rows example_table))"
    by (simp add: example_table_def)
  moreover have "delete_task Healthy 9223372036854775808 (Some example_table)
       = \<lparr>store = Some example_table, printed = [], returned = PyNone,
          raised = Some OverflowError\<rparr>"
    by (simp add: delete_task_def connect_db_def execute_def o)
  moreover have "complete_task Healthy 9223372036854775808 (Some example_table)
       = \<lparr>store = Some example_table, printed = [], returned = PyNone,
          raised = Some OverflowError\<rparr>"
    by (simp add: complete_task_def connect_db_def execute_def o)
  ultimately show ?thesis by blast
qed

section \<open>What a call may change in a row\<close>

lemma update_frame:
  "list_all2 (\<lambda>r r'. rowid r' = rowid r \<and> description r' = description r
                    \<and> due_date r' = due_date r
                    \<and> (completed r' = completed r \<or> completed r' = Some 1)
                    \<and> (rowid r \<noteq> k \<longrightarrow> r' = r))
     rs (map (\<lambda>r. if rowid r = k then r\<lparr>completed := Some 1\<rparr> else r) rs)"
  by (induction rs) auto

lemma same_frame:
  "list_all2 (\<lambda>r r'. rowid r' = rowid r \<and> description r' = description r
                    \<and> due_date r' = due_date r
                    \<and> (completed r' = completed r \<or> completed r' = Some 1)
                    \<and> (rowid r \<noteq> k \<longrightarrow> r' = r)) rs rs"
  by (induction rs) auto

lemma complete_task_store:
  "store (complete_task eng k (Some t)) = Some t
   \<or> store (complete_task eng k (Some t)) = Some (fst (sql_update k t))"
  by (cases eng) (auto simp add: complete_task_def connect_db_def execute_def case_prod_beta)

lemma other_calls_store:
  assumes "\<forall>j. c \<noteq> Complete_Task j"
  shows "store (run_command (eng, c) (Some t)) = Some t
   \<or> (\<exists>descr due. store (run_command (eng, c) (Some t)) = Some (sql_insert descr due t))
   \<or> (\<exists>j. store (run_command (eng, c) (Some t)) = Some (fst (sql_delete j t)))"
proof (cases c)
  case Create_Table
  then show ?thesis by (cases eng) (simp_all add: create_table_def connect_db_def)
next
  case (Add_Task descr due)
  then show ?thesis
    by (cases eng) (auto simp add: add_task_def connect_db_def execute_def)
next
  case (View_Tasks show_completed)
  then show ?thesis by (cases eng) (simp_all add: view_tasks_def connect_db_def execute_def)
next
  case (Complete_Task j)
  with assms show ?thesis by simp
next
  case (Delete_Task j)
  then show ?thesis
    by (cases eng) (auto simp add: delete_task_def connect_db_def execute_def case_prod_beta)
qed

text \<open>
  C7. Whatever the engine does, \<^verbatim>\<open>complete_task(k)\<close> keeps the rows of the table in
  number and order, and each row keeps its id, its description and its due date; its
  \<^verbatim>\<open>completed\<close> field stays or becomes 1; a row whose id is not \<open>k\<close> stays as a whole.
  Every other call (\<^verbatim>\<open>create_table\<close>, \<^verbatim>\<open>add_task\<close>, \<^verbatim>\<open>view_tasks\<close>,
  \<^verbatim>\<open>delete_task\<close>) leaves behind only rows that were in the table before, field for
  field, or rows under an id that the table did not hold.
\<close>

theorem only_complete_task_changes_a_row:
  "(\<exists>t'. store (complete_task eng k (Some t)) = Some t'
      \<and> list_all2 (\<lambda>r r'. rowid r' = rowid r \<and> description r' = description r
                         \<and> due_date r' = due_date r
                         \<and> (completed r' = completed r \<or> completed r' = Some 1)
                         \<and> (rowid r \<noteq> k \<longrightarrow> r' = r))
           (rows t) (rows t'))
   \<and> (\<forall>c. (\<forall>j. c \<noteq> Complete_Task j) \<longrightarrow>
         (\<exists>t'. store (run_command (eng, c) (Some t)) = Some t'
            \<and> (\<forall>r' \<in> set (rows t'). r' \<in> set (rows t) \<or> rowid r' \<notin> set (map rowid (rows t)))))"
proof (intro conjI allI impI)
  show "\<exists>t'. store (complete_task eng k (Some t)) = Some t'
      \<and> list_all2 (\<lambda>r r'. rowid r' = rowid r \<and> description r' = description r
                         \<and> due_date r' = due_date r
                         \<and> (completed r' = completed r \<or> completed r' = Some 1)
                         \<and> (rowid r \<noteq> k \<longrightarrow> r' = r))
           (rows t) (rows t')"
    using complete_task_store [of eng k t]
  proof
    assume "store (complete_task eng k (Some t)) = Some t"
    then show ?thesis using same_frame [of k "rows t"] by blast
  next
    assume "store (complete_task eng k (Some t)) = Some (fst (sql_update k t))"
    moreover have "rows (fst (sql_update k t))
        = map (\<lambda>r. if rowid r = k then r\<lparr>completed := Some 1\<rparr> else r) (rows t)"
      by (simp add: sql_update_def)
    ultimately show ?thesis using update_frame [of k "rows t"] by auto
  qed
next
  fix c
  assume c: "\<forall>j. c \<noteq> Complete_Task j"
  from other_calls_store [OF c, of eng t]
  show "\<exists>t'. store (run_command (eng, c) (Some t)) = Some t'
            \<and> (\<forall>r' \<in> set (rows t'). r' \<in> set (rows t) \<or> rowid r' \<notin> set (map rowid (rows t)))"
  proof (elim disjE exE)
    assume "store (run_command (eng, c) (Some t)) = Some t"
    then show ?thesis by simp
  next
    fix descr due
    assume "store (run_command (eng, c) (Some t)) = Some (sql_insert descr due t)"
    moreover have "next_rowid t \<notin> set (map rowid (rows t))"
      using rowid_less_next [of _ t] by force
    ultimately show ?thesis by (auto simp: sql_insert_def)
  next
    fix j
    assume "store (run_command (eng, c) (Some t)) = Some (fst (sql_delete j t))"
    then show ?thesis by (auto simp: sql_delete_def)
  qed
qed

theorem only_complete_task_changes_a_row_witness:
  "store (complete_task Healthy 3 (Some example_table)) =
       Some \<lparr>rows =
         [\<lparr>rowid = 1, description = ''Pay rent'', due_date = Some ''2025-12-01'', completed = Some 0\<rparr>,
          \<lparr>rowid = 2, description = ''Buy milk'', due_date = None, completed = Some 1\<rparr>,
          \<lparr>rowid = 3, description = ''Call Ann'', due_date = Some ''2025-11-15'', completed = Some 1\<rparr>,
          \<lparr>rowid = 4, description = ''Walk dog'', due_date = None, completed = Some 0\<rparr>,
          \<lparr>rowid = 5, description = ''File tax'', due_date = Some ''2025-01-31'', completed = Some 1\<rparr>],
         seq = 5\<rparr>
   \<and> store (run_command (Healthy, Delete_Task 2) (Some example_table)) =
       Some \<lparr>rows =
         [\<lparr>rowid = 1, description = ''Pay rent'', due_date = Some ''2025-12-01'', completed = Some 0\<rparr>,
          \<lparr>rowid = 3, description = ''Call Ann'', due_date = Some ''2025-11-15'', completed = Some 0\<rparr>,
          \<lparr>rowid = 4, description = ''Walk dog'', due_date = None, completed = Some 0\<rparr>,
          \<lparr>rowid = 5, description = ''File tax'', due_date = Some ''2025-01-31'', completed = Some 1\<rparr>],
         seq = 5\<rparr>
   \<and> (\<forall>j. Delete_Task 2 \<noteq> Complete_Task j)"
  using only_complete_task_changes_a_row [of Healthy 3 example_table]
  by (simp add: example_table_def delete_task_Healthy sqlite_integer_def complete_task_Healthy sqlite_integer_def
        sql_delete_def sql_update_def)


section \<open>Input validation\<close>

text \<open>A loop that prompts again has written more than one prompt.\<close>

lemma wrote_written: "written (wrote out r) = out @ written r"
  by (simp add: wrote_def)

lemma reprompt_differs:
  "wrote [p, m] r \<noteq> \<lparr>answer = a, written = [q], unread = u\<rparr>"
proof
  assume "wrote [p, m] r = \<lparr>answer = a, written = [q], unread = u\<rparr>"
  then have "written (wrote [p, m] r) = written \<lparr>answer = a, written = [q], unread = u\<rparr>"
    by simp
  then show False by (simp add: wrote_written)
qed

subsection \<open>Decimal texts of integers\<close>

lemma digits_small: "n < 10 \<Longrightarrow> digits n = [''0123456789'' ! n]"
  by (subst digits.simps) (simp del: digits.simps)

lemma digits_large:
  "\<not> n < 10 \<Longrightarrow> digits n = digits (n div 10) @ [''0123456789'' ! (n mod 10)]"
  by (subst digits.simps) (simp del: digits.simps)

lemma digit_chars:
  assumes "k < 10"
  shows "is_digit (''0123456789'' ! k)" "digit_val (''0123456789'' ! k) = k"
    "\<not> isspace (''0123456789'' ! k)"
proof -
  from assms have "k = 0 \<or> k = 1 \<or> k = 2 \<or> k = 3 \<or> k = 4 \<or> k = 5 \<or> k = 6 \<or> k = 7
      \<or> k = 8 \<or> k = 9" by arith
  then show "is_digit (''0123456789'' ! k)" "digit_val (''0123456789'' ! k) = k"
    "\<not> isspace (''0123456789'' ! k)"
    by (auto simp: is_digit_def digit_val_def isspace_def)
qed

lemma digits_shape:
  "digits n \<noteq> [] \<and> list_all is_digit (digits n) \<and> \<not> isspace (last (digits n))"
proof (induction n rule: digits.induct)
  case (1 n)
  show ?case
  proof (cases "n < 10")
    case True
    then show ?thesis using digit_chars [OF True] by (simp add: digits_small del: digits.simps)
  next
    case False
    have "n mod 10 < 10" by simp
    from digit_chars [OF this] 1 [OF False] False show ?thesis
      by (simp add: digits_large del: digits.simps)
  qed
qed

lemma int_digits_snoc:
  "list_all is_digit xs \<Longrightarrow> is_digit c \<Longrightarrow>
     int_digits acc (xs @ [c]) = map_option (\<lambda>v. 10 * v + digit_val c) (int_digits acc xs)"
  by (induction xs arbitrary: acc) simp_all

lemma py_nat_snoc:
  "xs \<noteq> [] \<Longrightarrow> list_all is_digit xs \<Longrightarrow> is_digit c \<Longrightarrow>
     py_nat (xs @ [c]) = map_option (\<lambda>v. 10 * v + digit_val c) (py_nat xs)"
  by (cases xs) (simp_all add: py_nat_def int_digits_snoc)

lemma py_nat_digits: "py_nat (digits n) = Some n"
proof (induction n rule: digits.induct)
  case (1 n)
  show ?case
  proof (cases "n < 10")
    case True
    then show ?thesis
      using digit_chars [OF True] by (simp add: digits_small py_nat_def del: digits.simps)
  next
    case False
    have m: "n mod 10 < 10" by simp
    have s: "digits (n div 10) \<noteq> []" "list_all is_digit (digits (n div 10))"
      using digits_shape [of "n div 10"] by blast+
    have "py_nat (digits (n div 10) @ [''0123456789'' ! (n mod 10)])
        = map_option (\<lambda>v. 10 * v + digit_val (''0123456789'' ! (n mod 10)))
            (py_nat (digits (n div 10)))"
      by (rule py_nat_snoc [OF s digit_chars(1) [OF m]])
    then show ?thesis
      using 1 [OF False] False digit_chars(2) [OF m]
      by (simp add: digits_large del: digits.simps)
  qed
qed

lemma digits_head: "\<exists>c cs. digits n = c # cs \<and> is_digit c"
  using digits_shape [of n] by (cases "digits n") (simp_all del: digits.simps)

lemma is_digit_not_sign: "is_digit c \<Longrightarrow> c \<noteq> CHR ''-'' \<and> c \<noteq> CHR ''+'' \<and> \<not> isspace c"
  by (auto simp: is_digit_def isspace_def less_eq_char_def)

lemma short_literal:
  assumes "length s \<le> 640 \<or> lim = 0 \<or> length s \<le> lim"
  shows "\<not> too_many_digits lim s"
proof -
  have "length (filter is_digit s) \<le> length s" by (rule length_filter_le)
  with assms show ?thesis unfolding too_many_digits_def by linarith
qed

lemma py_int_str_int: "\<not> too_many_digits lim (str_int n) \<Longrightarrow> py_int lim (str_int n) = Some n"
proof (cases "n < 0")
  case True
  assume "\<not> too_many_digits lim (str_int n)"
  with True show ?thesis
    by (simp add: py_int_def str_int_def py_nat_digits del: digits.simps)
next
  case False
  assume t: "\<not> too_many_digits lim (str_int n)"
  obtain c cs where d: "digits (nat n) = c # cs" "is_digit c" using digits_head by blast
  have "py_nat (c # cs) = Some (nat n)"
    using py_nat_digits [of "nat n"] d by (simp del: digits.simps)
  then have "(case str_int n of
              [] \<Rightarrow> None
            | c # cs \<Rightarrow>
                if c = CHR ''-'' then map_option (\<lambda>n. - int n) (py_nat cs)
                else if c = CHR ''+'' then map_option int (py_nat cs)
                else map_option int (py_nat (str_int n))) = Some n"
    using False d is_digit_not_sign [OF d(2)]
    by (simp add: str_int_def del: digits.simps)
  with t show ?thesis by (simp add: py_int_def)
qed

lemma py_int_short: "length s \<le> 640 \<Longrightarrow> py_int lim s = py_int 0 s"
  using short_literal [of s lim] short_literal [of s 0] by (simp add: py_int_def)

lemma strip_unchanged:
  assumes "s \<noteq> []" "\<not> isspace (hd s)" "\<not> isspace (last s)"
  shows "strip s = s"
proof -
  have a: "dropWhile isspace s = s" using assms by (simp add: dropWhile_eq_self_iff)
  have "hd (rev s) = last s" using assms(1) by (simp add: hd_rev)
  then have "dropWhile isspace (rev s) = rev s" using assms by (simp add: dropWhile_eq_self_iff)
  with a show ?thesis by (simp add: strip_def)
qed

lemma strip_str_int: "strip (str_int n) = str_int n"
proof (cases "n < 0")
  case True
  have l: "\<not> isspace (last (digits (nat (- n))))" "digits (nat (- n)) \<noteq> []"
    using digits_shape [of "nat (- n)"] by blast+
  have "\<not> isspace CHR ''-''" by (simp add: isspace_def)
  then show ?thesis
    using True l by (intro strip_unchanged) (simp_all add: str_int_def del: digits.simps)
next
  case False
  obtain c cs where d: "digits (nat n) = c # cs" "is_digit c" using digits_head by blast
  have l: "\<not> isspace (last (digits (nat n)))" using digits_shape [of "nat n"] by blast
  show ?thesis
    using False d l is_digit_not_sign [OF d(2)]
    by (intro strip_unchanged) (simp_all add: str_int_def del: digits.simps)
qed

subsection \<open>Dates in the form of four, two and two digits\<close>

lemma lit_simps: "lit c [] = []" "lit c (x # xs) = (if x = c then [xs] else [])"
  by (simp_all add: lit_def)

lemma two_chars_simps:
  "two_chars p q [] = []" "two_chars p q [a] = []"
  "two_chars p q (a # b # rest) = (if p a \<and> q b then [(10 * digit_val a + digit_val b, rest)] else [])"
  by (simp_all add: two_chars_def)

lemma one_char_simps:
  "one_char p [] = []"
  "one_char p (a # rest) = (if p a then [(digit_val a, rest)] else [])"
  by (simp_all add: one_char_def)

lemma digit_code: "is_digit c = (48 \<le> (of_char c :: nat) \<and> (of_char c :: nat) \<le> 57)"
  by (simp add: is_digit_def less_eq_char_def)

lemma between_code:
  "between lo hi c = ((of_char lo :: nat) \<le> of_char c \<and> (of_char c :: nat) \<le> of_char hi)"
  by (simp add: between_def less_eq_char_def)

lemma char_eq_code: "(c = d) = ((of_char c :: nat) = of_char d)"
  by (metis char_of_char)

lemma month_canonical:
  "is_digit g \<Longrightarrow> 
   concat (map (\<lambda>(m, s3). concat (map (\<lambda>s4. map (\<lambda>(d, s5). ((y, m, d), s5)) (day_group s4)) (lit CHR ''-'' s3)))
      (month_group [e, f, CHR ''-'', g, h]))
   = (if is_digit e \<and> is_digit f \<and> 1 \<le> 10 * digit_val e + digit_val f \<and> 10 * digit_val e + digit_val f \<le> 12
      then map (\<lambda>(d, s5). ((y, 10 * digit_val e + digit_val f, d), s5)) (day_group [g, h]) else [])"
  apply (simp add: month_group_def two_chars_simps one_char_simps lit_simps)
  apply (simp add: digit_code between_code digit_val_def char_eq_code [of _ "CHR ''-''"])
  apply (auto simp: day_group_def two_chars_simps one_char_simps lit_simps between_code char_eq_code [of _ "CHR '' ''"] char_eq_code [of _ "CHR ''-''"])
  done


lemma day_canonical:
  "is_digit g \<Longrightarrow> is_digit h \<Longrightarrow>
   (case map (\<lambda>(d, s5). ((y, m, d), s5)) (day_group [g, h]) of
      [] \<Rightarrow> None
    | ((y, m, d), rest) # _ \<Rightarrow>
        if rest \<noteq> [] then None else if valid_date y m d then Some (y, m, d) else None)
   = (if valid_date y m (10 * digit_val g + digit_val h)
      then Some (y, m, 10 * digit_val g + digit_val h) else None)"
  apply (simp add: day_group_def two_chars_simps one_char_simps lit_simps)
  apply (simp add: digit_code between_code digit_val_def char_eq_code [of _ "CHR '' ''"])
  apply (auto simp: valid_date_def days_in_month_def)
  done

lemma strptime_canonical:
  assumes "is_digit a" "is_digit b" "is_digit c" "is_digit d"
    "is_digit e" "is_digit f" "is_digit g" "is_digit h"
  shows "strptime [a, b, c, d, CHR ''-'', e, f, CHR ''-'', g, h]
     = (if valid_date (1000 * digit_val a + 100 * digit_val b + 10 * digit_val c + digit_val d)
             (10 * digit_val e + digit_val f) (10 * digit_val g + digit_val h)
        then Some (1000 * digit_val a + 100 * digit_val b + 10 * digit_val c + digit_val d,
                   10 * digit_val e + digit_val f, 10 * digit_val g + digit_val h)
        else None)"
proof -
  let ?y = "1000 * digit_val a + 100 * digit_val b + 10 * digit_val c + digit_val d"
  let ?m = "10 * digit_val e + digit_val f"
  have r: "regex_matches [a, b, c, d, CHR ''-'', e, f, CHR ''-'', g, h]
      = (if 1 \<le> ?m \<and> ?m \<le> 12
         then map (\<lambda>(d, s5). ((?y, ?m, d), s5)) (day_group [g, h]) else [])"
    using assms month_canonical [of g ?y e f h]
    by (simp add: regex_matches_def year_group_def lit_simps)
  show ?thesis
  proof (cases "1 \<le> ?m \<and> ?m \<le> 12")
    case True
    then show ?thesis
      using r day_canonical [OF assms(7,8), of ?y ?m] by (simp add: strptime_def)
  next
    case False
    then show ?thesis using r by (auto simp add: strptime_def valid_date_def)
  qed
qed

subsection \<open>What a text must look like to be read as a date\<close>

lemma split_on_none: "c \<notin> set a \<Longrightarrow> split_on c a = [a]"
  by (induction a) auto

lemma split_on_append: "c \<notin> set a \<Longrightarrow> split_on c (a @ c # b) = a # split_on c b"
  by (induction a) auto

lemma lit_mem: "r \<in> set (lit c s) \<Longrightarrow> s = c # r"
  by (cases s) (auto simp: lit_def split: if_splits)

lemma two_chars_mem:
  "(v, r) \<in> set (two_chars p q s)
     \<Longrightarrow> \<exists>a b. s = a # b # r \<and> p a \<and> q b \<and> v = 10 * digit_val a + digit_val b"
  by (auto simp: two_chars_def split: list.splits if_splits)

lemma one_char_mem:
  "(v, r) \<in> set (one_char p s) \<Longrightarrow> \<exists>a. s = a # r \<and> p a \<and> v = digit_val a"
  by (auto simp: one_char_def split: list.splits if_splits)

lemma between_digit:
  "between CHR ''0'' CHR ''0'' c \<or> between CHR ''0'' CHR ''1'' c \<or> between CHR ''0'' CHR ''2'' c
   \<or> between CHR ''1'' CHR ''1'' c \<or> between CHR ''1'' CHR ''2'' c \<or> between CHR ''1'' CHR ''9'' c
   \<or> between CHR ''3'' CHR ''3'' c \<Longrightarrow> is_digit c"
  by (auto simp: between_code digit_code)

lemma decimal_simps:
  "decimal [a] = digit_val a"
  "decimal [a, b] = 10 * digit_val a + digit_val b"
  "decimal [a, b, c, d] = 1000 * digit_val a + 100 * digit_val b + 10 * digit_val c + digit_val d"
  by (simp_all add: decimal_def)

lemma year_group_mem:
  "(v, r) \<in> set (year_group s)
     \<Longrightarrow> \<exists>yy. s = yy @ r \<and> length yy = 4 \<and> list_all is_digit yy \<and> v = decimal yy"
proof -
  assume "(v, r) \<in> set (year_group s)"
  then obtain a b c d where "s = [a, b, c, d] @ r" "is_digit a" "is_digit b" "is_digit c"
    "is_digit d" "v = decimal [a, b, c, d]"
    by (auto simp: year_group_def decimal_simps split: list.splits if_splits)
  then show ?thesis by (intro exI [of _ "[a, b, c, d]"]) simp
qed

lemma month_group_mem:
  "(v, r) \<in> set (month_group s)
     \<Longrightarrow> \<exists>mm. s = mm @ r \<and> (length mm = 1 \<or> length mm = 2) \<and> list_all is_digit mm
           \<and> v = decimal mm"
proof -
  assume "(v, r) \<in> set (month_group s)"
  then consider
    (two) a b where "s = [a, b] @ r" "is_digit a" "is_digit b" "v = decimal [a, b]"
  | (one) a where "s = [a] @ r" "is_digit a" "v = decimal [a]"
    unfolding month_group_def set_append Un_iff
    by (auto dest!: two_chars_mem one_char_mem simp: decimal_simps intro: between_digit)
  then show ?thesis
  proof cases
    case two
    then show ?thesis by (intro exI [of _ "[a, b]"]) simp
  next
    case one
    then show ?thesis by (intro exI [of _ "[a]"]) simp
  qed
qed

lemma space_not_digit: "\<not> is_digit CHR '' ''"
  by (simp add: is_digit_def)

lemma day_group_mem:
  assumes "(v, r) \<in> set (day_group s)"
  shows "\<exists>dd. s = dd @ r \<and> (length dd = 1 \<or> length dd = 2) \<and> is_digit (last dd)
           \<and> (is_digit (hd dd) \<or> hd dd = CHR '' '') \<and> v = decimal (filter is_digit dd)"
proof -
  have two: "\<exists>dd. s = dd @ r \<and> (length dd = 1 \<or> length dd = 2) \<and> is_digit (last dd)
           \<and> (is_digit (hd dd) \<or> hd dd = CHR '' '') \<and> v = decimal (filter is_digit dd)"
    if "(v, r) \<in> set (two_chars p q s)" and "\<And>c. p c \<Longrightarrow> is_digit c"
      and "\<And>c. q c \<Longrightarrow> is_digit c" for p q
  proof -
    from two_chars_mem [OF that(1)] obtain a b where
      "s = a # b # r" "p a" "q b" "v = 10 * digit_val a + digit_val b" by blast
    then show ?thesis
      using that(2) [of a] that(3) [of b]
      by (intro exI [of _ "[a, b]"]) (simp add: decimal_simps)
  qed
  have one: "\<exists>dd. s = dd @ r \<and> (length dd = 1 \<or> length dd = 2) \<and> is_digit (last dd)
           \<and> (is_digit (hd dd) \<or> hd dd = CHR '' '') \<and> v = decimal (filter is_digit dd)"
    if "(v, r) \<in> set (one_char (between CHR ''1'' CHR ''9'') s)"
  proof -
    from one_char_mem [OF that] obtain a where
      "s = a # r" "between CHR ''1'' CHR ''9'' a" "v = digit_val a" by blast
    then show ?thesis
      using between_digit [of a] by (intro exI [of _ "[a]"]) (simp add: decimal_simps)
  qed
  have pad: "\<exists>dd. s = dd @ r \<and> (length dd = 1 \<or> length dd = 2) \<and> is_digit (last dd)
           \<and> (is_digit (hd dd) \<or> hd dd = CHR '' '') \<and> v = decimal (filter is_digit dd)"
    if "(v, r) \<in> set (concat (map (one_char (between CHR ''1'' CHR ''9'')) (lit CHR '' '' s)))"
  proof -
    from that obtain s' where l: "s' \<in> set (lit CHR '' '' s)"
      and o: "(v, r) \<in> set (one_char (between CHR ''1'' CHR ''9'') s')" by auto
    from one_char_mem [OF o] obtain a where
      "s' = a # r" "between CHR ''1'' CHR ''9'' a" "v = digit_val a" by blast
    then show ?thesis
      using lit_mem [OF l] between_digit [of a]
      by (intro exI [of _ "[CHR '' '', a]"]) (simp add: decimal_simps space_not_digit)
  qed
  from assms have
    "(v, r) \<in> set (two_chars (between CHR ''3'' CHR ''3'') (between CHR ''0'' CHR ''1'') s)
     \<or> (v, r) \<in> set (two_chars (between CHR ''1'' CHR ''2'') is_digit s)
     \<or> (v, r) \<in> set (two_chars (between CHR ''0'' CHR ''0'') (between CHR ''1'' CHR ''9'') s)
     \<or> (v, r) \<in> set (one_char (between CHR ''1'' CHR ''9'') s)
     \<or> (v, r) \<in> set (concat (map (one_char (between CHR ''1'' CHR ''9'')) (lit CHR '' '' s)))"
    unfolding day_group_def set_append Un_iff by blast
  then show ?thesis
  proof (elim disjE)
    assume "(v, r) \<in> set (two_chars (between CHR ''3'' CHR ''3'') (between CHR ''0'' CHR ''1'') s)"
    then show ?thesis by (rule two) (simp_all add: between_digit)
  next
    assume "(v, r) \<in> set (two_chars (between CHR ''1'' CHR ''2'') is_digit s)"
    then show ?thesis by (rule two) (simp_all add: between_digit)
  next
    assume "(v, r) \<in> set (two_chars (between CHR ''0'' CHR ''0'') (between CHR ''1'' CHR ''9'') s)"
    then show ?thesis by (rule two) (simp_all add: between_digit)
  next
    assume "(v, r) \<in> set (one_char (between CHR ''1'' CHR ''9'') s)"
    then show ?thesis by (rule one)
  next
    assume "(v, r) \<in> set (concat (map (one_char (between CHR ''1'' CHR ''9'')) (lit CHR '' '' s)))"
    then show ?thesis by (rule pad)
  qed
qed

lemma regex_matches_mem:
  assumes "((y, m, d), r) \<in> set (regex_matches s)"
  shows "\<exists>yy mm dd. s = yy @ CHR ''-'' # mm @ CHR ''-'' # dd @ r
     \<and> length yy = 4 \<and> list_all is_digit yy \<and> y = decimal yy
     \<and> (length mm = 1 \<or> length mm = 2) \<and> list_all is_digit mm \<and> m = decimal mm
     \<and> (length dd = 1 \<or> length dd = 2) \<and> is_digit (last dd)
     \<and> (is_digit (hd dd) \<or> hd dd = CHR '' '') \<and> d = decimal (filter is_digit dd)"
proof -
  from assms obtain s1 s2 s3 s4 where
    y: "(y, s1) \<in> set (year_group s)" and h1: "s2 \<in> set (lit CHR ''-'' s1)"
    and m: "(m, s3) \<in> set (month_group s2)" and h2: "s4 \<in> set (lit CHR ''-'' s3)"
    and d: "(d, r) \<in> set (day_group s4)"
    by (auto simp: regex_matches_def)
  from year_group_mem [OF y] obtain yy where
    yy: "s = yy @ s1" "length yy = 4" "list_all is_digit yy" "y = decimal yy" by blast
  from month_group_mem [OF m] obtain mm where
    mm: "s2 = mm @ s3" "length mm = 1 \<or> length mm = 2" "list_all is_digit mm" "m = decimal mm"
    by blast
  from day_group_mem [OF d] obtain dd where
    dd: "s4 = dd @ r" "length dd = 1 \<or> length dd = 2" "is_digit (last dd)"
      "is_digit (hd dd) \<or> hd dd = CHR '' ''" "d = decimal (filter is_digit dd)"
    by blast
  have "s = yy @ CHR ''-'' # mm @ CHR ''-'' # dd @ r"
    using yy(1) lit_mem [OF h1] mm(1) lit_mem [OF h2] dd(1) by simp
  with yy mm dd show ?thesis by blast
qed

lemma hyphen_not_digit: "is_digit c \<Longrightarrow> c \<noteq> CHR ''-''"
  by (auto simp: is_digit_def)

lemma digits_no_hyphen: "list_all is_digit xs \<Longrightarrow> CHR ''-'' \<notin> set xs"
  using hyphen_not_digit by (auto simp: list_all_iff)

lemma day_no_hyphen:
  assumes "length dd = 1 \<or> length dd = 2" "is_digit (last dd)"
    "is_digit (hd dd) \<or> hd dd = CHR '' ''"
  shows "CHR ''-'' \<notin> set dd"
proof -
  from assms(1) consider a where "dd = [a]" | a b where "dd = [a, b]"
    by (auto simp: length_Suc_conv numeral_2_eq_2)
  then show ?thesis
    using assms(2,3) hyphen_not_digit by cases auto
qed

lemma strptime_loose: "strptime s = Some (y, m, d) \<Longrightarrow> loose_date s"
proof -
  assume a: "strptime s = Some (y, m, d)"
  then obtain ms where r: "regex_matches s = ((y, m, d), []) # ms" and v: "valid_date y m d"
    by (auto simp: strptime_def split: list.splits if_splits)
  then have "((y, m, d), []) \<in> set (regex_matches s)" by simp
  from regex_matches_mem [OF this] obtain yy mm dd where
    s: "s = yy @ CHR ''-'' # mm @ CHR ''-'' # dd"
    and yy: "length yy = 4" "list_all is_digit yy" "y = decimal yy"
    and mm: "length mm = 1 \<or> length mm = 2" "list_all is_digit mm" "m = decimal mm"
    and dd: "length dd = 1 \<or> length dd = 2" "is_digit (last dd)"
      "is_digit (hd dd) \<or> hd dd = CHR '' ''" "d = decimal (filter is_digit dd)"
    by auto
  have "split_on CHR ''-'' s = [yy, mm, dd]"
    unfolding s
    using digits_no_hyphen [OF yy(2)] digits_no_hyphen [OF mm(2)] day_no_hyphen [OF dd(1,2,3)]
    by (simp add: split_on_append split_on_none)
  then show ?thesis using yy mm dd v by (simp add: loose_date_def)
qed

lemma len10:
  assumes "length s = 10"
  shows "\<exists>a b c d e f g h i j. s = [a, b, c, d, e, f, g, h, i, j]"
proof -
  from assms obtain a s1 where 1: "s = a # s1" "length s1 = 9" by (cases s) auto
  then obtain b s2 where 2: "s1 = b # s2" "length s2 = 8" by (cases s1) auto
  then obtain c s3 where 3: "s2 = c # s3" "length s3 = 7" by (cases s2) auto
  then obtain d s4 where 4: "s3 = d # s4" "length s4 = 6" by (cases s3) auto
  then obtain e s5 where 5: "s4 = e # s5" "length s5 = 5" by (cases s4) auto
  then obtain f s6 where 6: "s5 = f # s6" "length s6 = 4" by (cases s5) auto
  then obtain g s7 where 7: "s6 = g # s7" "length s7 = 3" by (cases s6) auto
  then obtain h s8 where 8: "s7 = h # s8" "length s8 = 2" by (cases s7) auto
  then obtain i s9 where 9: "s8 = i # s9" "length s9 = 1" by (cases s8) auto
  then obtain j where 10: "s9 = [j]" by (cases s9) auto
  show ?thesis using 1 2 3 4 5 6 7 8 9 10 by blast
qed

lemma iso_date_text:
  assumes "iso_date s"
  shows "\<exists>y1 y2 y3 y4 m1 m2 d1 d2.
     s = [y1, y2, y3, y4, CHR ''-'', m1, m2, CHR ''-'', d1, d2]
     \<and> is_digit y1 \<and> is_digit y2 \<and> is_digit y3 \<and> is_digit y4
     \<and> is_digit m1 \<and> is_digit m2 \<and> is_digit d1 \<and> is_digit d2
     \<and> valid_date (1000 * digit_val y1 + 100 * digit_val y2 + 10 * digit_val y3 + digit_val y4)
          (10 * digit_val m1 + digit_val m2) (10 * digit_val d1 + digit_val d2)"
proof -
  from assms have "length s = 10" by (simp add: iso_date_def)
  from len10 [OF this] obtain y1 y2 y3 y4 h1 m1 m2 h2 d1 d2 where
    s: "s = [y1, y2, y3, y4, h1, m1, m2, h2, d1, d2]"
    by blast
  from assms show ?thesis unfolding s by (simp add: iso_date_def decimal_simps)
qed

lemma strptime_iso:
  assumes "iso_date s"
  shows "strptime s = Some (decimal (take 4 s), decimal (take 2 (drop 5 s)), decimal (drop 8 s))"
proof -
  from iso_date_text [OF assms] obtain y1 y2 y3 y4 m1 m2 d1 d2 where
    s: "s = [y1, y2, y3, y4, CHR ''-'', m1, m2, CHR ''-'', d1, d2]"
    and g: "is_digit y1" "is_digit y2" "is_digit y3" "is_digit y4"
      "is_digit m1" "is_digit m2" "is_digit d1" "is_digit d2"
    and v: "valid_date (1000 * digit_val y1 + 100 * digit_val y2 + 10 * digit_val y3
             + digit_val y4) (10 * digit_val m1 + digit_val m2) (10 * digit_val d1 + digit_val d2)"
    by blast
  show ?thesis
    unfolding s using strptime_canonical [OF g] v by (simp add: decimal_simps)
qed

subsection \<open>Texts in the form YYYY-MM-DD compare as their dates do\<close>

lemma two_digit_order:
  assumes "is_digit a" "is_digit b" "is_digit c" "is_digit d"
  shows "a < c \<Longrightarrow> 10 * digit_val a + digit_val b < 10 * digit_val c + digit_val d"
    and "a = c \<Longrightarrow> b < d \<Longrightarrow> 10 * digit_val a + digit_val b < 10 * digit_val c + digit_val d"
  using assms by (auto simp: digit_code digit_val_def less_char_def)

lemma four_digit_order:
  assumes "is_digit a1" "is_digit a2" "is_digit a3" "is_digit a4"
    "is_digit b1" "is_digit b2" "is_digit b3" "is_digit b4"
    "[a1, a2, a3, a4] < [b1, b2, b3, b4]"
  shows "1000 * digit_val a1 + 100 * digit_val a2 + 10 * digit_val a3 + digit_val a4
       < 1000 * digit_val b1 + 100 * digit_val b2 + 10 * digit_val b3 + digit_val b4"
  using assms by (auto simp: digit_code digit_val_def less_char_def)

lemma iso_text_order:
  assumes a: "is_digit a1" "is_digit a2" "is_digit a3" "is_digit a4"
      "is_digit a5" "is_digit a6" "is_digit a7" "is_digit a8"
    and b: "is_digit b1" "is_digit b2" "is_digit b3" "is_digit b4"
      "is_digit b5" "is_digit b6" "is_digit b7" "is_digit b8"
    and lt: "[a1, a2, a3, a4, CHR ''-'', a5, a6, CHR ''-'', a7, a8]
           < [b1, b2, b3, b4, CHR ''-'', b5, b6, CHR ''-'', b7, b8]"
  shows "(1000 * digit_val a1 + 100 * digit_val a2 + 10 * digit_val a3 + digit_val a4,
          10 * digit_val a5 + digit_val a6, 10 * digit_val a7 + digit_val a8)
       < (1000 * digit_val b1 + 100 * digit_val b2 + 10 * digit_val b3 + digit_val b4,
          10 * digit_val b5 + digit_val b6, 10 * digit_val b7 + digit_val b8)"
proof -
  from lt consider
    (year) "[a1, a2, a3, a4] < [b1, b2, b3, b4]"
  | (month) "a1 = b1" "a2 = b2" "a3 = b3" "a4 = b4" "a5 < b5 \<or> (a5 = b5 \<and> a6 < b6)"
  | (day) "a1 = b1" "a2 = b2" "a3 = b3" "a4 = b4" "a5 = b5" "a6 = b6"
      "a7 < b7 \<or> (a7 = b7 \<and> a8 < b8)"
    by auto
  then show ?thesis
  proof cases
    case year
    from four_digit_order [OF a(1-4) b(1-4) year] show ?thesis by (simp add: less_prod_def)
  next
    case month
    from month(5) have "10 * digit_val a5 + digit_val a6 < 10 * digit_val b5 + digit_val b6"
      using two_digit_order [OF a(5,6) b(5,6)] by blast
    with month(1-4) show ?thesis by (simp add: less_prod_def)
  next
    case day
    from day(7) have "10 * digit_val a7 + digit_val a8 < 10 * digit_val b7 + digit_val b8"
      using two_digit_order [OF a(7,8) b(7,8)] by blast
    with day(1-6) show ?thesis by (simp add: less_prod_def)
  qed
qed

lemma iso_day_mono:
  assumes "iso_date a" "iso_date b" "a < b"
  shows "strptime a < strptime b"
proof -
  from iso_date_text [OF assms(1)] obtain a1 a2 a3 a4 a5 a6 a7 a8 where
    ta: "a = [a1, a2, a3, a4, CHR ''-'', a5, a6, CHR ''-'', a7, a8]"
    and da: "is_digit a1" "is_digit a2" "is_digit a3" "is_digit a4"
      "is_digit a5" "is_digit a6" "is_digit a7" "is_digit a8"
    and va: "valid_date (1000 * digit_val a1 + 100 * digit_val a2 + 10 * digit_val a3
             + digit_val a4) (10 * digit_val a5 + digit_val a6) (10 * digit_val a7 + digit_val a8)"
    by blast
  from iso_date_text [OF assms(2)] obtain b1 b2 b3 b4 b5 b6 b7 b8 where
    tb: "b = [b1, b2, b3, b4, CHR ''-'', b5, b6, CHR ''-'', b7, b8]"
    and db: "is_digit b1" "is_digit b2" "is_digit b3" "is_digit b4"
      "is_digit b5" "is_digit b6" "is_digit b7" "is_digit b8"
    and vb: "valid_date (1000 * digit_val b1 + 100 * digit_val b2 + 10 * digit_val b3
             + digit_val b4) (10 * digit_val b5 + digit_val b6) (10 * digit_val b7 + digit_val b8)"
    by blast
  have sa: "strptime a = Some (1000 * digit_val a1 + 100 * digit_val a2 + 10 * digit_val a3
             + digit_val a4, 10 * digit_val a5 + digit_val a6, 10 * digit_val a7 + digit_val a8)"
    unfolding ta using strptime_canonical [OF da] va by simp
  have sb: "strptime b = Some (1000 * digit_val b1 + 100 * digit_val b2 + 10 * digit_val b3
             + digit_val b4, 10 * digit_val b5 + digit_val b6, 10 * digit_val b7 + digit_val b8)"
    unfolding tb using strptime_canonical [OF db] vb by simp
  from assms(3) have "[a1, a2, a3, a4, CHR ''-'', a5, a6, CHR ''-'', a7, a8]
           < [b1, b2, b3, b4, CHR ''-'', b5, b6, CHR ''-'', b7, b8]"
    unfolding ta tb .
  from iso_text_order [OF da db this] show ?thesis unfolding sa sb by simp
qed

lemma due_key_to_day:
  assumes "case due_date r of None \<Rightarrow> True | Some s \<Rightarrow> iso_date s"
    and "case due_date s of None \<Rightarrow> True | Some s \<Rightarrow> iso_date s"
    and "(due_date r, rowid r) \<le> (due_date s, rowid s)"
  shows "due_day (due_date r) < due_day (due_date s)
       \<or> (due_day (due_date r) = due_day (due_date s) \<and> rowid r \<le> rowid s)"
proof (cases "due_date r")
  case None
  note nr = this
  show ?thesis
  proof (cases "due_date s")
    case None
    with nr assms(3) show ?thesis by (simp add: due_day_def less_eq_prod_def)
  next
    case (Some b)
    with assms(2) have "iso_date b" by simp
    from strptime_iso [OF this] Some nr show ?thesis by (simp add: due_day_def)
  qed
next
  case (Some a)
  note sr = this
  with assms(1) have ia: "iso_date a" by simp
  show ?thesis
  proof (cases "due_date s")
    case None
    with sr assms(3) show ?thesis by (simp add: less_eq_prod_def)
  next
    case (Some b)
    with assms(2) have ib: "iso_date b" by simp
    from assms(3) sr Some have "a < b \<or> (a = b \<and> rowid r \<le> rowid s)"
      by (auto simp: less_eq_prod_def)
    then show ?thesis
    proof
      assume "a < b"
      from iso_day_mono [OF ia ib this] sr Some show ?thesis by (simp add: due_day_def)
    next
      assume "a = b \<and> rowid r \<le> rowid s"
      with sr Some show ?thesis by (simp add: due_day_def)
    qed
  qed
qed

subsection \<open>The task id\<close>

lemma task_id_examples:
  "py_int lim (strip ''0'') = Some 0"
  "py_int lim (strip ''-5'') = Some (- 5)"
  "py_int lim (strip ''abc'') = None"
  "py_int lim (strip ''1'') = Some 1"
  "py_int lim (strip ''42'') = Some 42"
proof -
  have s: "strip ''0'' = ''0''" "strip ''-5'' = ''-5''" "strip ''abc'' = ''abc''"
    "strip ''1'' = ''1''" "strip ''42'' = ''42''"
    by code_simp+
  have p: "py_int 0 ''0'' = Some 0" "py_int 0 ''-5'' = Some (- 5)" "py_int 0 ''abc'' = None"
    "py_int 0 ''1'' = Some 1" "py_int 0 ''42'' = Some 42"
    by code_simp+
  show "py_int lim (strip ''0'') = Some 0"
    "py_int lim (strip ''-5'') = Some (- 5)"
    "py_int lim (strip ''abc'') = None"
    "py_int lim (strip ''1'') = Some 1"
    "py_int lim (strip ''42'') = Some 42"
    by (simp_all add: s p py_int_short)
qed

lemma task_id_positive: "answer (get_valid_task_id_input lim prompt ls) = Inr n \<Longrightarrow> 0 < n"
proof (induction ls)
  case Nil
  then show ?case by simp
next
  case (Cons line rest)
  then show ?case
    by (auto simp: Let_def wrote_def split: option.splits if_splits)
qed

text \<open>
  C9. With \<open>lim\<close> the interpreter's limit on the digits of a decimal literal (0 for none):
  the task-id loop accepts a line exactly when \<^verbatim>\<open>int\<close> reads its stripped text as an
  integer greater than 0, and then returns that integer without a further prompt. A line
  that \<^verbatim>\<open>int\<close> cannot read, among them every line with more digits than the limit
  allows, and a line read as an integer that is not positive, each print their message and
  make the loop prompt again for the next line. Whatever the loop returns is positive, and
  the decimal text of every positive integer within the limit is accepted. It rejects
  \<^verbatim>\<open>0\<close>, \<^verbatim>\<open>-5\<close> and \<^verbatim>\<open>abc\<close>, and it accepts \<^verbatim>\<open>1\<close> and \<^verbatim>\<open>42\<close>.
\<close>

theorem task_id_validator:
  "((get_valid_task_id_input lim prompt (line # rest)
        = \<lparr>answer = Inr n, written = [prompt], unread = rest\<rparr>)
      = (py_int lim (strip line) = Some n \<and> 0 < n))
   \<and> (py_int lim (strip line) = None \<longrightarrow>
        get_valid_task_id_input lim prompt (line # rest)
          = wrote [prompt, ''Invalid input. Please enter a number for the Task ID.'']
              (get_valid_task_id_input lim prompt rest))
   \<and> (too_many_digits lim (strip line) \<longrightarrow> py_int lim (strip line) = None)
   \<and> ((\<exists>m. py_int lim (strip line) = Some m \<and> m \<le> 0) \<longrightarrow>
        get_valid_task_id_input lim prompt (line # rest)
          = wrote [prompt, ''Task ID must be a positive number.'']
              (get_valid_task_id_input lim prompt rest))
   \<and> (\<forall>m. answer (get_valid_task_id_input lim prompt (line # rest)) = Inr m \<longrightarrow> 0 < m)
   \<and> (0 < k \<and> (length (str_int k) \<le> 640 \<or> lim = 0 \<or> length (str_int k) \<le> lim) \<longrightarrow>
        get_valid_task_id_input lim prompt (str_int k # rest)
          = \<lparr>answer = Inr k, written = [prompt], unread = rest\<rparr>)
   \<and> get_valid_task_id_input lim prompt [''0'', ''-5'', ''abc'', ''42'', ''7'']
       = \<lparr>answer = Inr 42,
          written = [prompt, ''Task ID must be a positive number.'',
                     prompt, ''Task ID must be a positive number.'',
                     prompt, ''Invalid input. Please enter a number for the Task ID.'',
                     prompt],
          unread = [''7'']\<rparr>
   \<and> get_valid_task_id_input lim prompt [''1'']
       = \<lparr>answer = Inr 1, written = [prompt], unread = []\<rparr>"
proof (intro conjI impI allI)
  show "(get_valid_task_id_input lim prompt (line # rest)
        = \<lparr>answer = Inr n, written = [prompt], unread = rest\<rparr>)
      = (py_int lim (strip line) = Some n \<and> 0 < n)"
    by (auto simp: Let_def reprompt_differs split: option.splits)
next
  assume "py_int lim (strip line) = None"
  then show "get_valid_task_id_input lim prompt (line # rest)
          = wrote [prompt, ''Invalid input. Please enter a number for the Task ID.'']
              (get_valid_task_id_input lim prompt rest)"
    by (simp add: Let_def)
next
  assume "too_many_digits lim (strip line)"
  then show "py_int lim (strip line) = None" by (simp add: py_int_def)
next
  assume "\<exists>m. py_int lim (strip line) = Some m \<and> m \<le> 0"
  then show "get_valid_task_id_input lim prompt (line # rest)
          = wrote [prompt, ''Task ID must be a positive number.'']
              (get_valid_task_id_input lim prompt rest)"
    by (auto simp add: Let_def)
next
  fix m
  assume "answer (get_valid_task_id_input lim prompt (line # rest)) = Inr m"
  then show "0 < m" by (rule task_id_positive)
next
  assume a: "0 < k \<and> (length (str_int k) \<le> 640 \<or> lim = 0 \<or> length (str_int k) \<le> lim)"
  then have "\<not> too_many_digits lim (str_int k)" using short_literal by blast
  then have "py_int lim (str_int k) = Some k" by (rule py_int_str_int)
  with a show "get_valid_task_id_input lim prompt (str_int k # rest)
          = \<lparr>answer = Inr k, written = [prompt], unread = rest\<rparr>"
    by (simp add: Let_def strip_str_int)
next
  show "get_valid_task_id_input lim prompt [''0'', ''-5'', ''abc'', ''42'', ''7'']
       = \<lparr>answer = Inr 42,
          written = [prompt, ''Task ID must be a positive number.'',
                     prompt, ''Task ID must be a positive number.'',
                     prompt, ''Invalid input. Please enter a number for the Task ID.'',
                     prompt],
          unread = [''7'']\<rparr>"
    by (simp add: Let_def task_id_examples wrote_def)
next
  show "get_valid_task_id_input lim prompt [''1'']
       = \<lparr>answer = Inr 1, written = [prompt], unread = []\<rparr>"
    by (simp add: Let_def task_id_examples)
qed

theorem task_id_validator_witness:
  "py_int 4300 (strip '' +1_0 '') = Some 10
   \<and> get_valid_task_id_input 4300 ''ID: '' ['' +1_0 '', ''x'']
       = \<lparr>answer = Inr 10, written = [''ID: ''], unread = [''x'']\<rparr>
   \<and> py_int 4300 (strip ''4 2'') = None
   \<and> py_int 4300 (strip ''-0'') = Some 0
   \<and> get_valid_task_id_input 4300 ''ID: '' [''4 2'', ''-0'']
       = \<lparr>answer = Inl EOFError,
          written = [''ID: '', ''Invalid input. Please enter a number for the Task ID.'',
                     ''ID: '', ''Task ID must be a positive number.'', ''ID: ''],
          unread = []\<rparr>
   \<and> too_many_digits 4300 (strip (replicate 4301 CHR ''7''))
   \<and> answer (get_valid_task_id_input 4300 ''ID: '' [replicate 4301 CHR ''7'']) = Inl EOFError
   \<and> (0::int) < 10 \<and> length (str_int 10) \<le> 640"
proof -
  have s: "strip '' +1_0 '' = ''+1_0''" "strip ''4 2'' = ''4 2''" "strip ''-0'' = ''-0''"
    by code_simp+
  have p: "py_int 0 ''+1_0'' = Some 10" "py_int 0 ''4 2'' = None" "py_int 0 ''-0'' = Some 0"
    by code_simp+
  have e: "py_int 4300 (strip '' +1_0 '') = Some 10" "py_int 4300 (strip ''4 2'') = None"
    "py_int 4300 (strip ''-0'') = Some 0"
    by (simp_all add: s p py_int_short)
  have "strip (replicate 4301 CHR ''7'') = replicate 4301 CHR ''7''"
    by (intro strip_unchanged) (simp_all add: isspace_def hd_replicate last_replicate)
  moreover have "filter is_digit (replicate 4301 CHR ''7'') = replicate 4301 CHR ''7''"
    by (simp add: is_digit_def)
  ultimately have t: "too_many_digits 4300 (strip (replicate 4301 CHR ''7''))"
    by (simp add: too_many_digits_def)
  have l: "length (str_int 10) \<le> 640" by (simp add: str_int_def)
  show ?thesis
    using e t l task_id_validator [of 4300 "''ID: ''" "'' +1_0 ''" "[''x'']" 10 10]
      task_id_validator [of 4300 "''ID: ''" "''4 2''" "[''-0'']" 1 1]
      task_id_validator [of 4300 "''ID: ''" "''-0''" "[]" 1 1]
      task_id_validator [of 4300 "''ID: ''" "replicate 4301 CHR ''7''" "[]" 1 1]
    by (simp add: wrote_def)
qed

subsection \<open>The due date\<close>

lemma date_examples:
  "strip ''2025-13-01'' = ''2025-13-01''" "strptime ''2025-13-01'' = None"
  "strip ''31-12-2025'' = ''31-12-2025''" "strptime ''31-12-2025'' = None"
  "strip ''not-a-date'' = ''not-a-date''" "strptime ''not-a-date'' = None"
  "strip ''2025-01-01'' = ''2025-01-01''" "strptime ''2025-01-01'' = Some (2025, 1, 1)"
  "strip '''' = ''''"
  by code_simp+

lemma blank_examples:
  "strip ''   '' = ''''" "strptime ''   '' = None"
  by code_simp+

lemma shape_examples:
  "iso_date ''2025-01-01''" "\<not> loose_date ''2025-13-01''" "\<not> loose_date ''31-12-2025''"
  "\<not> loose_date ''not-a-date''"
  by code_simp+

text \<open>
  The prompt takes a date typed without leading zeros, which is not in the form
  \<^verbatim>\<open>YYYY-MM-DD\<close>, and hands it on as typed.
\<close>

lemma january_first_accepted:
  "get_valid_date_input ''Due: '' [''2025-1-1'']
     = \<lparr>answer = Inr (Some ''2025-1-1''), written = [''Due: ''], unread = []\<rparr>
   \<and> \<not> iso_date ''2025-1-1''"
proof -
  have "strip ''2025-1-1'' = ''2025-1-1''" "strptime ''2025-1-1'' = Some (2025, 1, 1)"
    "\<not> iso_date ''2025-1-1''"
    by code_simp+
  then show ?thesis by (simp add: Let_def)
qed

lemma iso_is_loose: "iso_date s \<Longrightarrow> loose_date s"
  using strptime_iso [of s] strptime_loose [of s] by blast

text \<open>
  C8, as the claim states it: the date loop accepts exactly the empty string and the
  strings that parse as a date. It strips the line first: a line of three spaces is
  accepted as no due date, although it is not the empty string and does not parse.
\<close>

theorem blank_line_accepted_as_no_date:
  "get_valid_date_input ''Due: '' [''   '']
     = \<lparr>answer = Inr None, written = [''Due: ''], unread = []\<rparr>
   \<and> ''   '' \<noteq> ''''
   \<and> strptime ''   '' = None"
  by (simp add: Let_def blank_examples)

text \<open>
  C8, amended: the date loop strips leading and trailing whitespace from the line. It
  accepts the line as no due date (\<^verbatim>\<open>None\<close>) exactly when the stripped text is empty.
  It accepts every line whose stripped text is a valid calendar date in the form
  \<^verbatim>\<open>YYYY-MM-DD\<close>, and returns the stripped text. Whatever it accepts as a due date is
  the stripped text and names a valid calendar date by a year of four digits, a month
  and a day of one or two characters, separated by hyphens; every other line that is not
  blank prints the error message and makes the loop prompt again for the next line.
  (Whether a date written with a one-character month or day is accepted is not part of
  the statement.) The loop rejects \<^verbatim>\<open>2025-13-01\<close>, \<^verbatim>\<open>31-12-2025\<close> and
  \<^verbatim>\<open>not-a-date\<close>, and it accepts the empty line and \<^verbatim>\<open>2025-01-01\<close>.
\<close>

theorem date_validator:
  "((get_valid_date_input prompt (line # rest)
        = \<lparr>answer = Inr None, written = [prompt], unread = rest\<rparr>)
      = (strip line = ''''))
   \<and> (iso_date (strip line) \<longrightarrow>
        get_valid_date_input prompt (line # rest)
          = \<lparr>answer = Inr (Some (strip line)), written = [prompt], unread = rest\<rparr>)
   \<and> (get_valid_date_input prompt (line # rest)
          = \<lparr>answer = Inr (Some d), written = [prompt], unread = rest\<rparr> \<longrightarrow>
        d = strip line \<and> loose_date d)
   \<and> (strip line \<noteq> '''' \<and> \<not> loose_date (strip line) \<longrightarrow>
        get_valid_date_input prompt (line # rest)
          = wrote [prompt,
              ''Invalid date format. Please use YYYY-MM-DD (e.g., 2025-12-31) or leave blank.'']
              (get_valid_date_input prompt rest))
   \<and> (iso_date s \<longrightarrow> loose_date s)
   \<and> iso_date ''2025-01-01'' \<and> \<not> loose_date ''2025-13-01'' \<and> \<not> loose_date ''31-12-2025''
   \<and> \<not> loose_date ''not-a-date''
   \<and> get_valid_date_input prompt [''2025-13-01'', ''31-12-2025'', ''not-a-date'', ''2025-01-01'', ''x'']
       = \<lparr>answer = Inr (Some ''2025-01-01''),
          written = [prompt,
            ''Invalid date format. Please use YYYY-MM-DD (e.g., 2025-12-31) or leave blank.'',
            prompt,
            ''Invalid date format. Please use YYYY-MM-DD (e.g., 2025-12-31) or leave blank.'',
            prompt,
            ''Invalid date format. Please use YYYY-MM-DD (e.g., 2025-12-31) or leave blank.'',
            prompt],
          unread = [''x'']\<rparr>
   \<and> get_valid_date_input prompt ['''', ''x'']
       = \<lparr>answer = Inr None, written = [prompt], unread = [''x'']\<rparr>"
proof (intro conjI impI)
  show "(get_valid_date_input prompt (line # rest)
        = \<lparr>answer = Inr None, written = [prompt], unread = rest\<rparr>)
      = (strip line = '''')"
    by (auto simp: Let_def reprompt_differs split: option.splits)
next
  assume i: "iso_date (strip line)"
  then have "strip line \<noteq> ''''" by (auto simp: iso_date_def)
  moreover have "strptime (strip line) \<noteq> None" using strptime_iso [OF i] by simp
  ultimately show "get_valid_date_input prompt (line # rest)
          = \<lparr>answer = Inr (Some (strip line)), written = [prompt], unread = rest\<rparr>"
    by (auto simp: Let_def)
next
  assume a: "get_valid_date_input prompt (line # rest)
          = \<lparr>answer = Inr (Some d), written = [prompt], unread = rest\<rparr>"
  then have "d = strip line \<and> strptime d \<noteq> None"
    by (auto simp: Let_def reprompt_differs split: option.splits if_splits)
  then show "d = strip line" "loose_date d" using strptime_loose [of d] by auto
next
  assume a: "strip line \<noteq> '''' \<and> \<not> loose_date (strip line)"
  then have "strptime (strip line) = None"
    using strptime_loose [of "strip line"] by (cases "strptime (strip line)") auto
  with a show "get_valid_date_input prompt (line # rest)
          = wrote [prompt,
              ''Invalid date format. Please use YYYY-MM-DD (e.g., 2025-12-31) or leave blank.'']
              (get_valid_date_input prompt rest)"
    by (simp add: Let_def)
next
  assume "iso_date s"
  then show "loose_date s" by (rule iso_is_loose)
next
  show "iso_date ''2025-01-01''" "\<not> loose_date ''2025-13-01''" "\<not> loose_date ''31-12-2025''"
    "\<not> loose_date ''not-a-date''"
    by (rule shape_examples)+
next
  show "get_valid_date_input prompt [''2025-13-01'', ''31-12-2025'', ''not-a-date'', ''2025-01-01'', ''x'']
       = \<lparr>answer = Inr (Some ''2025-01-01''),
          written = [prompt,
            ''Invalid date format. Please use YYYY-MM-DD (e.g., 2025-12-31) or leave blank.'',
            prompt,
            ''Invalid date format. Please use YYYY-MM-DD (e.g., 2025-12-31) or leave blank.'',
            prompt,
            ''Invalid date format. Please use YYYY-MM-DD (e.g., 2025-12-31) or leave blank.'',
            prompt],
          unread = [''x'']\<rparr>"
    by (simp add: Let_def date_examples wrote_def)
next
  show "get_valid_date_input prompt ['''', ''x'']
       = \<lparr>answer = Inr None, written = [prompt], unread = [''x'']\<rparr>"
    by (simp add: Let_def date_examples)
qed

theorem date_validator_witness:
  "get_valid_date_input ''Due: '' [''2024-02-30'', '' 2024-02-29 '']
     = \<lparr>answer = Inr (Some ''2024-02-29''),
        written = [''Due: '',
          ''Invalid date format. Please use YYYY-MM-DD (e.g., 2025-12-31) or leave blank.'',
          ''Due: ''],
        unread = []\<rparr>
   \<and> strip ''2024-02-30'' \<noteq> '''' \<and> \<not> loose_date (strip ''2024-02-30'')
   \<and> strip '' 2024-02-29 '' = ''2024-02-29'' \<and> iso_date ''2024-02-29''
   \<and> loose_date ''2024-02-29''"
proof -
  have e: "strip ''2024-02-30'' = ''2024-02-30''" "\<not> loose_date ''2024-02-30''"
    "strip '' 2024-02-29 '' = ''2024-02-29''" "iso_date ''2024-02-29''"
    by code_simp+
  have "strip ''2024-02-30'' \<noteq> '''' \<and> \<not> loose_date (strip ''2024-02-30'') \<longrightarrow>
        get_valid_date_input ''Due: '' (''2024-02-30'' # ['' 2024-02-29 ''])
          = wrote [''Due: '',
              ''Invalid date format. Please use YYYY-MM-DD (e.g., 2025-12-31) or leave blank.'']
              (get_valid_date_input ''Due: '' ['' 2024-02-29 ''])"
    using date_validator [of "''Due: ''" "''2024-02-30''" "['' 2024-02-29 '']" "''2024-02-29''"
        "''2024-02-29''"]
    by blast
  then have r: "get_valid_date_input ''Due: '' (''2024-02-30'' # ['' 2024-02-29 ''])
          = wrote [''Due: '',
              ''Invalid date format. Please use YYYY-MM-DD (e.g., 2025-12-31) or leave blank.'']
              (get_valid_date_input ''Due: '' ['' 2024-02-29 ''])"
    using e(2) unfolding e(1) by simp
  have "(iso_date (strip '' 2024-02-29 '') \<longrightarrow>
        get_valid_date_input ''Due: '' ('' 2024-02-29 '' # [])
          = \<lparr>answer = Inr (Some (strip '' 2024-02-29 '')), written = [''Due: ''],
             unread = []\<rparr>)
     \<and> (iso_date ''2024-02-29'' \<longrightarrow> loose_date ''2024-02-29'')"
    using date_validator [of "''Due: ''" "'' 2024-02-29 ''" "[]" "''2024-02-29''" "''2024-02-29''"]
    by blast
  then have a: "get_valid_date_input ''Due: '' ['' 2024-02-29 '']
          = \<lparr>answer = Inr (Some ''2024-02-29''), written = [''Due: ''], unread = []\<rparr>"
    and l: "loose_date ''2024-02-29''"
    using e(4) unfolding e(3) by blast+
  have "get_valid_date_input ''Due: '' [''2024-02-30'', '' 2024-02-29 '']
     = \<lparr>answer = Inr (Some ''2024-02-29''),
        written = [''Due: '',
          ''Invalid date format. Please use YYYY-MM-DD (e.g., 2025-12-31) or leave blank.'',
          ''Due: ''],
        unread = []\<rparr>"
    unfolding r a by (simp add: wrote_def)
  moreover have "strip ''2024-02-30'' \<noteq> ''''" unfolding e(1) by simp
  moreover have "\<not> loose_date (strip ''2024-02-30'')" unfolding e(1) by (rule e(2))
  ultimately show ?thesis using e(3) e(4) l by blast
qed


end
